theory Spec2Isabelle
  imports Complex_Main "HOL-Library.Sublist"
begin

section \<open>The reconnaissance API server (server/server.js)\<close>

text \<open>
  The server is an Express application with three routes:
  \<^item> \<open>POST /api/reconnaissance\<close> validates the request body, creates the
    domain's results directory, runs the reconnaissance script as a child process and
    answers with the report the script left behind;
  \<^item> \<open>GET /api/results/:domain\<close> reads a results file back;
  \<^item> \<open>GET /api/results/:domain/download\<close> sends a results file as a download.

  Everything outside the handlers' own text is a parameter of the model: the file
  system, the child processes (as the events they emit), what \<open>res.download\<close> does
  with a path, the clock, the process environment and \<open>JSON.parse\<close>. The handlers
  return the response together with the list of effects (file-system calls, spawns and
  the call of \<open>res.download\<close>) they performed, in order.
\<close>

subsection \<open>JSON values\<close>

text \<open>
  A JavaScript value as far as the handlers receive, build or relay one (the value of a
  JSON document). Numbers are rationals: the counts of a report are integers, the
  execution time is a quotient by 1000.
\<close>

datatype json =
    JNull
  | JBool bool
  | JNum rat
  | JStr string
  | JArr "json list"
  | JObj "(string \<times> json) list"

text \<open>JavaScript truthiness of a request field; \<open>None\<close> is an absent field (undefined).\<close>

fun truthy :: "json option \<Rightarrow> bool" where
  "truthy None = False"
| "truthy (Some JNull) = False"
| "truthy (Some (JBool b)) = b"
| "truthy (Some (JNum n)) = (n \<noteq> 0)"
| "truthy (Some (JStr s)) = (s \<noteq> [])"
| "truthy (Some (JArr xs)) = True"
| "truthy (Some (JObj kvs)) = True"

text \<open>
  The string of a value. A number is written in decimal digits, with a minus sign and,
  when it is not an integer, a point and its fraction digits (\<open>Number::toString\<close>;
  ECMAScript changes to the exponent notation, with the letter \<open>e\<close>, from \<open>10^21\<close> on
  and below \<open>10^-6\<close>, which is not reproduced). \<open>toString\<close> is the string a
  validator of express-validator receives for a value: the empty string for \<open>null\<close>,
  the words \<open>true\<close> and \<open>false\<close>, the numeral of a number, a string as it is, the
  strings of the elements of an array joined with commas (\<open>Array.prototype.toString\<close>)
  and \<open>[object Object]\<close> for an object.
\<close>

fun show_nat :: "nat \<Rightarrow> string" where
  "show_nat n =
     (if n < 10 then [''0123456789'' ! n]
      else show_nat (n div 10) @ [''0123456789'' ! (n mod 10)])"

declare show_nat.simps [simp del]

definition show_int :: "int \<Rightarrow> string" where
  "show_int i = (if i < 0 then ''-'' @ show_nat (nat (- i)) else show_nat (nat i))"

fun fraction_digits :: "nat \<Rightarrow> rat \<Rightarrow> string" where
  "fraction_digits 0 x = []"
| "fraction_digits (Suc k) x =
     (if x = 0 then []
      else show_nat (nat \<lfloor>10 * x\<rfloor>) @ fraction_digits k (10 * x - of_int \<lfloor>10 * x\<rfloor>))"

definition Number_toString :: "rat \<Rightarrow> string" where
  "Number_toString r =
     (if r = of_int \<lfloor>r\<rfloor> then show_int \<lfloor>r\<rfloor>
      else (if r < 0 then ''-'' else []) @ show_nat (nat \<lfloor>\<bar>r\<bar>\<rfloor>) @ ''.'' @
           fraction_digits 17 (\<bar>r\<bar> - of_int \<lfloor>\<bar>r\<bar>\<rfloor>))"

fun join_comma :: "string list \<Rightarrow> string" where
  "join_comma [] = []"
| "join_comma [s] = s"
| "join_comma (s # t # ss) = s @ '','' @ join_comma (t # ss)"

fun toString :: "json \<Rightarrow> string" where
  "toString JNull = []"
| "toString (JBool b) = (if b then ''true'' else ''false'')"
| "toString (JNum r) = Number_toString r"
| "toString (JStr s) = s"
| "toString (JArr xs) = join_comma (map toString xs)"
| "toString (JObj kvs) = ''[object Object]''"

subsection \<open>The domain pattern\<close>

text \<open>
  Character classes of the pattern
  \<^verbatim>\<open>/^[a-zA-Z0-9][a-zA-Z0-9\-]{0,61}[a-zA-Z0-9]?\.[a-zA-Z]{2,}$/\<close>,
  by code point as a range of a class is. The POST route and the two GET routes use the
  same pattern (the GET routes write the hyphen of the second class without the
  backslash).
\<close>

definition is_digit :: "char \<Rightarrow> bool" where
  "is_digit c = (let n = (of_char c :: nat) in 48 \<le> n \<and> n \<le> 57)"

definition is_upper :: "char \<Rightarrow> bool" where
  "is_upper c = (let n = (of_char c :: nat) in 65 \<le> n \<and> n \<le> 90)"

definition is_lower :: "char \<Rightarrow> bool" where
  "is_lower c = (let n = (of_char c :: nat) in 97 \<le> n \<and> n \<le> 122)"

definition alnum :: "char \<Rightarrow> bool" where
  "alnum c = (is_lower c \<or> is_upper c \<or> is_digit c)"

definition alnum_hyphen :: "char \<Rightarrow> bool" where
  "alnum_hyphen c = (alnum c \<or> c = CHR ''-'')"

definition alpha :: "char \<Rightarrow> bool" where
  "alpha c = (is_lower c \<or> is_upper c)"

definition dot :: "char \<Rightarrow> bool" where
  "dot c = (c = CHR ''.'')"

text \<open>
  A pattern is run as a matcher: given the rest of the input, it returns every rest
  that can remain after the pattern has consumed a prefix. \<open>RegExp.test\<close> with both
  anchors asks whether the empty rest is among them.
\<close>

type_synonym matcher = "string \<Rightarrow> string list"

definition cls :: "(char \<Rightarrow> bool) \<Rightarrow> matcher" where
  "cls P s = (case s of [] \<Rightarrow> [] | c # cs \<Rightarrow> if P c then [cs] else [])"

definition seq :: "matcher \<Rightarrow> matcher \<Rightarrow> matcher" where
  "seq m1 m2 s = concat (map m2 (m1 s))"

definition opt :: "matcher \<Rightarrow> matcher" where
  "opt m s = m s @ [s]"

primrec rep_upto :: "nat \<Rightarrow> matcher \<Rightarrow> matcher" where
  "rep_upto 0 m s = [s]"
| "rep_upto (Suc n) m s = concat (map (rep_upto n m) (m s)) @ [s]"

fun star_cls :: "(char \<Rightarrow> bool) \<Rightarrow> matcher" where
  "star_cls P [] = [[]]"
| "star_cls P (c # cs) = (if P c then star_cls P cs @ [c # cs] else [c # cs])"

primrec rep_atleast :: "nat \<Rightarrow> (char \<Rightarrow> bool) \<Rightarrow> matcher" where
  "rep_atleast 0 P = star_cls P"
| "rep_atleast (Suc n) P = seq (cls P) (rep_atleast n P)"

definition regex_test :: "matcher \<Rightarrow> string \<Rightarrow> bool" where
  "regex_test m s = ([] \<in> set (m s))"

definition domain_regex :: matcher where
  "domain_regex =
     seq (cls alnum) (seq (rep_upto 61 (cls alnum_hyphen)) (seq (opt (cls alnum))
       (seq (cls dot) (rep_atleast 2 alpha))))"

subsection \<open>Request validation (validateDomain)\<close>

text \<open>
  The request body of \<open>POST /api/reconnaissance\<close>, as \<open>express.json()\<close> parses it:
  \<open>timeout\<close>, \<open>workers\<close> and the three flags are arbitrary JSON values, the
  \<open>domain\<close> is a string, and each field may be absent (\<open>undefined\<close>). A body whose
  domain is not a string never starts a run: the pattern rejects the string of a number,
  of a boolean, of \<open>null\<close> and of an object, and an array, validated element by
  element, either fails the validation or makes \<open>path.join\<close> throw before any
  effect, which the handler answers with HTTP 500.
\<close>

record reqbody =
  domain :: "string option"
  timeout :: "json option"
  workers :: "json option"
  verbose :: "json option"
  jsonOnly :: "json option"
  csvOnly :: "json option"

record verror =
  path :: string
  msg :: string

text \<open>
  \<open>isInt(str, {min, max})\<close> of validator.js: the string matches
  \<^verbatim>\<open>/^[-+]?[0-9]+$/\<close> and passes the comparisons \<open>str >= min\<close> and \<open>str <= max\<close>.
  The comparisons convert the string to a number; \<open>ToNumber\<close> is that number for a
  string the pattern matches, the value of its digits with its sign.
\<close>

definition sign :: "char \<Rightarrow> bool" where
  "sign c = (c = CHR ''-'' \<or> c = CHR ''+'')"

definition intLeadingZeroes :: matcher where
  "intLeadingZeroes = seq (opt (cls sign)) (rep_atleast 1 is_digit)"

definition digits_value :: "string \<Rightarrow> nat" where
  "digits_value s = foldl (\<lambda>a c. 10 * a + (of_char c - 48)) 0 s"

definition ToNumber :: "string \<Rightarrow> int" where
  "ToNumber s =
     (case s of
        [] \<Rightarrow> 0
      | c # cs \<Rightarrow>
          if c = CHR ''-'' then - int (digits_value cs)
          else if c = CHR ''+'' then int (digits_value cs)
          else int (digits_value s))"

definition isInt :: "string \<Rightarrow> int \<Rightarrow> int \<Rightarrow> bool" where
  "isInt str lo hi = (regex_test intLeadingZeroes str \<and> lo \<le> ToNumber str \<and> ToNumber str \<le> hi)"

text \<open>
  A validator runs on each element of a value that is an array, and on the value itself
  otherwise (\<open>Array.isArray(value) ? value : [value]\<close>), and records one error for
  each element it fails on.
\<close>

definition values_of :: "json \<Rightarrow> json list" where
  "values_of v = (case v of JArr xs \<Rightarrow> xs | _ \<Rightarrow> [v])"

text \<open>
  The three validation chains. A chain runs all its validators and records one error per
  failing validator; an absent domain is validated as the empty string; \<open>optional()\<close>
  skips an absent field.
\<close>

definition validateDomain :: "reqbody \<Rightarrow> verror list" where
  "validateDomain b =
     (let d = (case domain b of None \<Rightarrow> [] | Some s \<Rightarrow> s) in
        (if 1 \<le> length d then [] else [\<lparr>path = ''domain'', msg = ''Domain is required''\<rparr>]) @
        (if regex_test domain_regex d then []
         else [\<lparr>path = ''domain'', msg = ''Invalid domain format''\<rparr>])) @
     (case timeout b of
        None \<Rightarrow> []
      | Some t \<Rightarrow>
          map (\<lambda>v. \<lparr>path = ''timeout'', msg = ''Timeout must be between 30 and 300 seconds''\<rparr>)
            (filter (\<lambda>v. \<not> isInt (toString v) 30 300) (values_of t))) @
     (case workers b of
        None \<Rightarrow> []
      | Some w \<Rightarrow>
          map (\<lambda>v. \<lparr>path = ''workers'', msg = ''Workers must be between 1 and 30''\<rparr>)
            (filter (\<lambda>v. \<not> isInt (toString v) 1 30) (values_of w)))"

definition verror_json :: "verror \<Rightarrow> json" where
  "verror_json e = JObj [(''msg'', JStr (msg e)), (''path'', JStr (path e))]"

subsection \<open>Paths (path.join of Node, POSIX)\<close>

text \<open>
  \<open>path.join\<close> joins its non-empty arguments with a slash and normalises the result:
  empty and \<open>.\<close> segments are dropped, a \<open>..\<close> segment removes the segment before it
  (and is kept in front of a relative path when there is none to remove).
\<close>

fun split_slash :: "string \<Rightarrow> string list" where
  "split_slash [] = [[]]"
| "split_slash (c # cs) =
     (if c = CHR ''/'' then [] # split_slash cs
      else (case split_slash cs of [] \<Rightarrow> [[c]] | seg # segs \<Rightarrow> (c # seg) # segs))"

fun join_slash :: "string list \<Rightarrow> string" where
  "join_slash [] = []"
| "join_slash [s] = s"
| "join_slash (s # t # ss) = s @ ''/'' @ join_slash (t # ss)"

fun normalizeString :: "bool \<Rightarrow> string list \<Rightarrow> string list \<Rightarrow> string list" where
  "normalizeString allowAboveRoot res [] = res"
| "normalizeString allowAboveRoot res (seg # segs) =
     (if seg = [] \<or> seg = ''.'' then normalizeString allowAboveRoot res segs
      else if seg = ''..'' then
        (if res \<noteq> [] \<and> last res \<noteq> ''..''
         then normalizeString allowAboveRoot (butlast res) segs
         else if allowAboveRoot then normalizeString allowAboveRoot (res @ [''..'']) segs
         else normalizeString allowAboveRoot res segs)
      else normalizeString allowAboveRoot (res @ [seg]) segs)"

definition isAbsolute :: "string \<Rightarrow> bool" where
  "isAbsolute p = (case p of [] \<Rightarrow> False | c # cs \<Rightarrow> c = CHR ''/'')"

definition path_normalize :: "string \<Rightarrow> string" where
  "path_normalize p =
     (if p = [] then ''.''
      else
        let trailingSeparator = (last p = CHR ''/'');
            body = join_slash (normalizeString (\<not> isAbsolute p) [] (split_slash p))
        in if body = [] then
             (if isAbsolute p then ''/'' else if trailingSeparator then ''./'' else ''.'')
           else (if isAbsolute p then ''/'' else []) @ body @
                (if trailingSeparator then ''/'' else []))"

definition path_join :: "string list \<Rightarrow> string" where
  "path_join parts =
     (let joined = join_slash (filter (\<lambda>a. a \<noteq> []) parts)
      in if joined = [] then ''.'' else path_normalize joined)"

subsection \<open>The environment\<close>

text \<open>
  A file as the handlers can observe it: \<open>Missing m\<close> fails \<open>fs.promises.access\<close> and
  \<open>fs.readFileSync\<close> with the message \<open>m\<close>; \<open>Unreadable m\<close> passes \<open>access\<close> and
  fails \<open>readFileSync\<close> with \<open>m\<close>; \<open>File data\<close> passes both.
\<close>

datatype file_state = Missing string | Unreadable string | File string

text \<open>
  What a child process emits: chunks on its two streams, \<open>error\<close> (with the error's
  \<open>code\<close> and \<open>message\<close>) and \<open>close\<close> (with the exit code, \<open>None\<close> for \<open>null\<close>
  when a signal ended it).
\<close>

datatype event =
    StdoutData string
  | StderrData string
  | ErrorEv string string
  | Close "int option"

text \<open>
  What \<open>res.download\<close> of Express does with a path, when it is given no callback: it
  sends the data of the file; or it finds a directory and passes the request on
  (\<open>next()\<close>), to the last middleware of the application; or it fails with an error
  that it hands to the error handling of Express (\<open>next(err)\<close>), which answers with
  the status of the error.
\<close>

datatype sent = Sent string | Directory | SendError nat

record env =
  dirname :: string
  PYTHON_PATH :: "string option"
  existsSync :: "string \<Rightarrow> bool"
  mkdirSync :: "string \<Rightarrow> string option"
  files :: "string \<Rightarrow> file_state"
  JSON_parse :: "string \<Rightarrow> string + json"
  spawn :: "string \<Rightarrow> json list \<Rightarrow> event list"
  download :: "string \<Rightarrow> sent"
  startTime :: int
  endTime :: int
  toISOString :: string

text \<open>
  \<open>dirname\<close> is \<open>__dirname\<close>; \<open>PYTHON_PATH\<close> is \<open>process.env.PYTHON_PATH\<close>;
  \<open>mkdirSync d\<close> is \<open>None\<close> when the directory can be created and the thrown
  error's message otherwise; \<open>files\<close> is the file system as it is when a handler reads
  it; \<open>JSON_parse\<close> returns \<open>Inl\<close> of the SyntaxError's message on a text that is not
  JSON; \<open>spawn cmd args\<close> is the list of events the child process started by that
  command line emits, in order (the argument array holds strings and, for the timeout
  and the workers, the value of the request or the default number);
  \<open>download p\<close> is what \<open>res.download\<close> does with the path \<open>p\<close>;
  \<open>startTime\<close> and \<open>endTime\<close> are the two readings of
  \<open>Date.now()\<close>; \<open>toISOString\<close> is the time stamp \<open>new Date().toISOString()\<close>.
\<close>

datatype effect =
    ExistsSync string
  | MkdirSync string
  | Spawn string "json list"
  | Access string
  | ReadFileSync string
  | Download string string

text \<open>
  The body of a response by the call that sends it: \<open>res.json(value)\<close>,
  \<open>res.send(value)\<close>, the data of the file that \<open>res.download\<close> sends, and the page
  of the error handler of Express. The headers of a response are those the handler has
  set with \<open>setHeader\<close>, in order.
\<close>

datatype body = Json json | Send json | FileData string | ErrorPage

record response =
  status :: nat
  headers :: "(string \<times> string) list"
  body :: body

text \<open>
  What a handler does: the response of the request (\<open>None\<close> when none is ever sent) and
  the effects it performed: the calls of the file system, the spawns, and the call
  \<open>res.download(path, filename)\<close>, which reads the file at that path.
\<close>

record outcome =
  response :: "response option"
  effects :: "effect list"

subsection \<open>ensureDirectoryExists\<close>

definition ensureDirectoryExists :: "env \<Rightarrow> string \<Rightarrow> effect list \<times> (string + string)" where
  "ensureDirectoryExists e dirPath =
     (if \<not> existsSync e dirPath then
        (case mkdirSync e dirPath of
           Some m \<Rightarrow> ([ExistsSync dirPath, MkdirSync dirPath], Inl m)
         | None \<Rightarrow> ([ExistsSync dirPath, MkdirSync dirPath], Inr dirPath))
      else ([ExistsSync dirPath], Inr dirPath))"

subsection \<open>Promises and the child process (executeScript, handlePythonProcess)\<close>

text \<open>A promise settles once: \<open>resolve\<close> and \<open>reject\<close> on a settled promise do nothing.\<close>

datatype 'a promise = Pending | Resolved 'a | Rejected string

definition resolve :: "'a \<Rightarrow> 'a promise \<Rightarrow> 'a promise" where
  "resolve v p = (case p of Pending \<Rightarrow> Resolved v | _ \<Rightarrow> p)"

definition reject :: "string \<Rightarrow> 'a promise \<Rightarrow> 'a promise" where
  "reject m p = (case p of Pending \<Rightarrow> Rejected m | _ \<Rightarrow> p)"

record script_result =
  success :: bool
  message :: string
  script_output :: string

text \<open>The exit code in a template literal: decimal digits, a minus sign, \<open>null\<close>.\<close>

definition show_code :: "int option \<Rightarrow> string" where
  "show_code code =
     (case code of
        None \<Rightarrow> ''null''
      | Some i \<Rightarrow> if i < 0 then ''-'' @ show_nat (nat (- i)) else show_nat (nat i))"

text \<open>
  \<open>handlePythonProcess\<close> keeps the two accumulated streams and registers four
  listeners on the process; \<open>handlePythonProcess_on\<close> is what they do on one event.
\<close>

record captured =
  stdout :: string
  stderr :: string

definition handlePythonProcess_on ::
  "event \<Rightarrow> captured \<times> script_result promise \<Rightarrow> captured \<times> script_result promise" where
  "handlePythonProcess_on ev st =
     (case st of (h, p) \<Rightarrow>
        (case ev of
           StdoutData d \<Rightarrow> (h\<lparr>stdout := stdout h @ d\<rparr>, p)
         | StderrData d \<Rightarrow> (h\<lparr>stderr := stderr h @ d\<rparr>, p)
         | Close code \<Rightarrow>
             (h,
              if code = Some 0 then
                resolve \<lparr>success = True, message = ''Reconnaissance completed successfully'',
                         script_output = stdout h\<rparr> p
              else
                reject (''Script exited with code '' @ show_code code @ [CHR 0x0A] @
                        ''STDOUT: '' @ stdout h @ [CHR 0x0A] @ ''STDERR: '' @ stderr h) p)
         | ErrorEv c m \<Rightarrow> (h, reject (''Error executing script: '' @ m) p)))"

text \<open>
  The listener \<open>executeScript\<close> registers on the first process before it calls
  \<open>handlePythonProcess\<close>: on \<open>error\<close> with code ENOENT it spawns the fallback (counted
  in the second component), on any other \<open>error\<close> it rejects.
\<close>

definition executeScript_on_error ::
  "event \<Rightarrow> script_result promise \<times> nat \<Rightarrow> script_result promise \<times> nat" where
  "executeScript_on_error ev st =
     (case st of (p, fallbacks) \<Rightarrow>
        (case ev of
           ErrorEv c m \<Rightarrow>
             if c = ''ENOENT'' then (p, Suc fallbacks)
             else (reject (''Error executing script: '' @ m) p, fallbacks)
         | _ \<Rightarrow> (p, fallbacks)))"

text \<open>
  One event of the first process: its listeners run in the order of their registration,
  the one of \<open>executeScript\<close> first, then those of \<open>handlePythonProcess\<close>.
\<close>

definition first_process_on ::
  "event \<Rightarrow> captured \<times> script_result promise \<times> nat \<Rightarrow> captured \<times> script_result promise \<times> nat" where
  "first_process_on ev st =
     (case st of (h, p, fallbacks) \<Rightarrow>
        (case executeScript_on_error ev (p, fallbacks) of (p1, fallbacks1) \<Rightarrow>
           (case handlePythonProcess_on ev (h, p1) of (h2, p2) \<Rightarrow> (h2, p2, fallbacks1))))"

text \<open>
  A fallback process: a fresh \<open>handlePythonProcess\<close> on the same \<open>resolve\<close> and
  \<open>reject\<close>. Its events come after the \<open>error\<close> event that started it; the model
  delivers them after the remaining events of the first process.
\<close>

definition fallback_process :: "event list \<Rightarrow> script_result promise \<Rightarrow> script_result promise" where
  "fallback_process evs p =
     snd (fold handlePythonProcess_on evs (\<lparr>stdout = [], stderr = []\<rparr>, p))"

text \<open>
  The argument array: \<open>timeout || 300\<close> and \<open>workers || 20\<close> give the default
  number for an absent or falsy value and the value of the request otherwise; the script
  path comes from the environment or is relative to \<open>__dirname\<close>; the filter
  \<open>arg !== ""\<close> removes the empty strings of the three flags.
\<close>

definition js_or :: "json option \<Rightarrow> json \<Rightarrow> json" where
  "js_or v d = (case v of None \<Rightarrow> d | Some x \<Rightarrow> if truthy (Some x) then x else d)"

definition script_path :: "env \<Rightarrow> string" where
  "script_path e =
     (case PYTHON_PATH e of
        None \<Rightarrow> path_join [dirname e, ''../scripts/main.py'']
      | Some p \<Rightarrow> if p \<noteq> [] then p else path_join [dirname e, ''../scripts/main.py''])"

definition script_args ::
  "env \<Rightarrow> string \<Rightarrow> string \<Rightarrow> json option \<Rightarrow> json option \<Rightarrow> json option \<Rightarrow> json option \<Rightarrow>
   json option \<Rightarrow> json list" where
  "script_args e d resultsDir tmo wrk vrb jsn csv =
     filter (\<lambda>a. a \<noteq> JStr [])
       [JStr (script_path e),
        JStr d,
        JStr ''--output-dir'', JStr resultsDir,
        JStr ''--timeout'', js_or tmo (JNum 300),
        JStr ''--workers'', js_or wrk (JNum 20),
        JStr (if truthy vrb then ''--verbose'' else []),
        JStr (if truthy jsn then ''--json-only'' else []),
        JStr (if truthy csv then ''--csv-only'' else [])]"

text \<open>
  \<open>executeScript\<close> spawns \<open>python3\<close> and, on each ENOENT error of it, \<open>python\<close> with
  the same arguments. The result is the list of spawns and the promise once every event
  has been delivered; the handler awaits the promise, which settles at most once.
\<close>

definition executeScript ::
  "env \<Rightarrow> string \<Rightarrow> string \<Rightarrow> json option \<Rightarrow> json option \<Rightarrow> json option \<Rightarrow> json option \<Rightarrow>
   json option \<Rightarrow> effect list \<times> script_result promise" where
  "executeScript e d resultsDir tmo wrk vrb jsn csv =
     (let args = script_args e d resultsDir tmo wrk vrb jsn csv in
      (case fold first_process_on (spawn e ''python3'' args)
              (\<lparr>stdout = [], stderr = []\<rparr>, Pending, 0) of
         (h, p, fallbacks) \<Rightarrow>
           (Spawn ''python3'' args # replicate fallbacks (Spawn ''python'' args),
            ((fallback_process (spawn e ''python'' args)) ^^ fallbacks) p)))"

subsection \<open>readResults\<close>

text \<open>
  \<open>readResults\<close> returns the parsed report for the format \<open>json\<close> and the text of the
  file (a JavaScript string) for any other format; \<open>Inl\<close> is the message of the error it
  throws.
\<close>

definition results_filename :: "string \<Rightarrow> string \<Rightarrow> string" where
  "results_filename d format =
     (if format = ''json'' then d @ ''_reconnaissance_report.json'' else d @ ''_subdomains.csv'')"

definition readResults :: "env \<Rightarrow> string \<Rightarrow> string \<Rightarrow> string \<Rightarrow> effect list \<times> (string + json)" where
  "readResults e resultsDir d format =
     (let filename = results_filename d format;
          filePath = path_join [resultsDir, filename]
      in ([ReadFileSync filePath],
          (case files e filePath of
             File data \<Rightarrow>
               if format = ''json'' then
                 (case JSON_parse e data of
                    Inr j \<Rightarrow> Inr j
                  | Inl m \<Rightarrow> Inl (''Failed to read results file: '' @ m))
               else Inr (JStr data)
           | Missing m \<Rightarrow> Inl (''Failed to read results file: '' @ m)
           | Unreadable m \<Rightarrow> Inl (''Failed to read results file: '' @ m))))"

subsection \<open>POST /api/reconnaissance\<close>

definition server_error :: "string \<Rightarrow> response" where
  "server_error m =
     \<lparr>status = 500, headers = [],
      body = Json (JObj [(''success'', JBool False),
                         (''message'', JStr ''Internal server error''),
                         (''error'', JStr m),
                         (''details'', JStr ''No additional details available'')])\<rparr>"

definition validation_error :: "verror list \<Rightarrow> response" where
  "validation_error errors =
     \<lparr>status = 400, headers = [],
      body = Json (JObj [(''success'', JBool False),
                         (''errors'', JArr (map verror_json errors))])\<rparr>"

text \<open>The report the handler builds when neither the file nor the output gives one.\<close>

definition synthesized_report :: "env \<Rightarrow> string \<Rightarrow> string \<Rightarrow> json" where
  "synthesized_report e d fileErrorMessage =
     JObj [(''domain'', JStr d),
           (''timestamp'', JStr (toISOString e)),
           (''total_subdomains'', JNum 0),
           (''active_subdomains'', JNum 0),
           (''subdomains'', JArr []),
           (''active_hosts'', JArr []),
           (''errors'', JArr [JStr (''Failed to create results file: '' @ fileErrorMessage)])]"

text \<open>
  The inner \<open>try\<close> of the handler, once the script has resolved: the report file if it
  can be accessed, read and parsed; on any failure there (\<open>fileError\<close>), the output of
  the script parsed as JSON; if that fails too, the synthesized report.
\<close>

definition from_output :: "env \<Rightarrow> string \<Rightarrow> script_result \<Rightarrow> string \<Rightarrow> json" where
  "from_output e d scriptResult fileErrorMessage =
     (case JSON_parse e (script_output scriptResult) of
        Inr j \<Rightarrow> j
      | Inl m \<Rightarrow> synthesized_report e d fileErrorMessage)"

definition results_after_run :: "env \<Rightarrow> string \<Rightarrow> string \<Rightarrow> script_result \<Rightarrow> effect list \<times> json" where
  "results_after_run e resultsDir d scriptResult =
     (let resultsFilePath = path_join [resultsDir, d @ ''_reconnaissance_report.json''] in
      (case files e resultsFilePath of
         Missing m \<Rightarrow> ([Access resultsFilePath], from_output e d scriptResult m)
       | _ \<Rightarrow>
          (case readResults e resultsDir d ''json'' of
             (effs, Inr j) \<Rightarrow> (Access resultsFilePath # effs, j)
           | (effs, Inl m) \<Rightarrow> (Access resultsFilePath # effs, from_output e d scriptResult m))))"

definition completed :: "env \<Rightarrow> json \<Rightarrow> response" where
  "completed e resultsData =
     \<lparr>status = 200, headers = [],
      body = Json (JObj [(''success'', JBool True),
                         (''message'', JStr ''Reconnaissance completed successfully''),
                         (''executionTime'', JNum (of_int (endTime e - startTime e) / 1000)),
                         (''results'', resultsData)])\<rparr>"

text \<open>
  The handler. A body without a domain never passes the validation; the branch is what
  \<open>path.join\<close> does on \<open>undefined\<close> inside the \<open>try\<close>.
\<close>

definition post_reconnaissance :: "env \<Rightarrow> reqbody \<Rightarrow> outcome" where
  "post_reconnaissance e b =
     (let errors = validateDomain b in
      if errors \<noteq> [] then \<lparr>response = Some (validation_error errors), effects = []\<rparr>
      else
        (case domain b of
           None \<Rightarrow>
             \<lparr>response = Some (server_error (''The '' @ [CHR 0x22] @ ''path'' @ [CHR 0x22] @
                  '' argument must be of type string. Received undefined'')),
              effects = []\<rparr>
         | Some d \<Rightarrow>
            (case ensureDirectoryExists e (path_join [dirname e, ''results'', d]) of
               (effs1, Inl m) \<Rightarrow> \<lparr>response = Some (server_error m), effects = effs1\<rparr>
             | (effs1, Inr resultsDir) \<Rightarrow>
                (case executeScript e d resultsDir (timeout b) (workers b) (verbose b)
                        (jsonOnly b) (csvOnly b) of
                   (effs2, Pending) \<Rightarrow> \<lparr>response = None, effects = effs1 @ effs2\<rparr>
                 | (effs2, Rejected m) \<Rightarrow>
                     \<lparr>response = Some (server_error m), effects = effs1 @ effs2\<rparr>
                 | (effs2, Resolved scriptResult) \<Rightarrow>
                    (case results_after_run e resultsDir d scriptResult of
                       (effs3, resultsData) \<Rightarrow>
                         \<lparr>response = Some (completed e resultsData),
                          effects = effs1 @ effs2 @ effs3\<rparr>)))))"

subsection \<open>GET /api/results/:domain and GET /api/results/:domain/download\<close>

definition invalid_domain :: response where
  "invalid_domain =
     \<lparr>status = 400, headers = [],
      body = Json (JObj [(''success'', JBool False), (''error'', JStr ''Invalid domain format'')])\<rparr>"

text \<open>
  The format of a request: the query parameter \<open>format\<close>, \<open>json\<close> when it is absent.
  (A parameter that is not a string, which the query parser gives for a repeated or a
  nested key, is not the string \<open>json\<close> and takes the branch of every other format;
  the model has the strings.)
\<close>

definition query_format :: "string option \<Rightarrow> string" where
  "query_format fmt = (case fmt of None \<Rightarrow> ''json'' | Some f \<Rightarrow> f)"

definition results_json :: "env \<Rightarrow> string \<Rightarrow> string \<Rightarrow> json \<Rightarrow> response" where
  "results_json e d format resultsData =
     \<lparr>status = 200, headers = [],
      body = Json (JObj [(''success'', JBool True),
                         (''data'', resultsData),
                         (''metadata'', JObj [(''domain'', JStr d),
                                              (''format'', JStr format),
                                              (''timestamp'', JStr (toISOString e))])])\<rparr>"

definition results_csv :: "string \<Rightarrow> json \<Rightarrow> response" where
  "results_csv d resultsData =
     \<lparr>status = 200,
      headers = [(''Content-Type'', ''text/csv''),
                 (''Content-Disposition'',
                  ''attachment; filename='' @ [CHR 0x22] @ d @ ''_subdomains.csv'' @ [CHR 0x22])],
      body = Send resultsData\<rparr>"

definition results_not_found :: "string \<Rightarrow> response" where
  "results_not_found m =
     \<lparr>status = 404, headers = [],
      body = Json (JObj [(''success'', JBool False),
                         (''error'', JStr ''Results not found''),
                         (''message'', JStr m)])\<rparr>"

definition get_results :: "env \<Rightarrow> string \<Rightarrow> string option \<Rightarrow> outcome" where
  "get_results e d fmt =
     (let format = query_format fmt in
      if \<not> regex_test domain_regex d then \<lparr>response = Some invalid_domain, effects = []\<rparr>
      else
        (case readResults e (path_join [dirname e, ''results'', d]) d format of
           (effs, Inr resultsData) \<Rightarrow>
             if format = ''json'' then
               \<lparr>response = Some (results_json e d format resultsData), effects = effs\<rparr>
             else \<lparr>response = Some (results_csv d resultsData), effects = effs\<rparr>
         | (effs, Inl m) \<Rightarrow> \<lparr>response = Some (results_not_found m), effects = effs\<rparr>))"

definition file_not_found :: "string \<Rightarrow> response" where
  "file_not_found d =
     \<lparr>status = 404, headers = [],
      body = Json (JObj [(''success'', JBool False),
                         (''error'', JStr ''File not found''),
                         (''message'', JStr (''Results file for domain '' @ d @ '' not found''))])\<rparr>"

text \<open>
  The download route: once \<open>fs.promises.access\<close> has passed, the handler sets the two
  headers and calls \<open>res.download(filePath, filename)\<close>. What follows is Express's: the
  file is sent; or, on a directory, the request goes on to the last middleware of the
  application, which answers 404; or the error handler of Express answers.
\<close>

definition not_found :: response where
  "not_found =
     \<lparr>status = 404, headers = [],
      body = Json (JObj [(''success'', JBool False),
                         (''error'', JStr ''Not found''),
                         (''message'', JStr ''The requested resource was not found'')])\<rparr>"

definition download_headers :: "string \<Rightarrow> string \<Rightarrow> (string \<times> string) list" where
  "download_headers format filename =
     [(''Content-Type'', if format = ''json'' then ''application/json'' else ''text/csv''),
      (''Content-Disposition'', ''attachment; filename='' @ [CHR 0x22] @ filename @ [CHR 0x22])]"

definition file_download :: "string \<Rightarrow> string \<Rightarrow> sent \<Rightarrow> response" where
  "file_download format filename s =
     (case s of
        Sent data \<Rightarrow>
          \<lparr>status = 200, headers = download_headers format filename, body = FileData data\<rparr>
      | Directory \<Rightarrow> not_found\<lparr>headers := download_headers format filename\<rparr>
      | SendError n \<Rightarrow>
          \<lparr>status = n, headers = download_headers format filename, body = ErrorPage\<rparr>)"

definition get_download :: "env \<Rightarrow> string \<Rightarrow> string option \<Rightarrow> outcome" where
  "get_download e d fmt =
     (let format = query_format fmt in
      if \<not> regex_test domain_regex d then \<lparr>response = Some invalid_domain, effects = []\<rparr>
      else
        (let filename = results_filename d format;
             filePath = path_join [dirname e, ''results'', d, filename]
         in (case files e filePath of
               Missing m \<Rightarrow> \<lparr>response = Some (file_not_found d), effects = [Access filePath]\<rparr>
             | _ \<Rightarrow>
                 \<lparr>response = Some (file_download format filename (download e filePath)),
                  effects = [Access filePath, Download filePath filename]\<rparr>)))"

section \<open>Notions used in the statements\<close>

subsection \<open>Paths below the results directory\<close>

text \<open>
  A plain path segment: not empty, no slash, and neither \<open>.\<close> nor \<open>..\<close>. Joining a plain
  segment to a directory names an entry of that directory.
\<close>

definition plain :: "string \<Rightarrow> bool" where
  "plain s = (s \<noteq> [] \<and> CHR ''/'' \<notin> set s \<and> s \<noteq> ''.'' \<and> s \<noteq> ''..'')"

text \<open>
  The results directory of the server, the results directory of a domain and the path
  of a results file in it.
\<close>

definition results_root :: "env \<Rightarrow> string" where
  "results_root e = path_join [dirname e, ''results'']"

definition results_dir :: "env \<Rightarrow> string \<Rightarrow> string" where
  "results_dir e d = results_root e @ ''/'' @ d"

definition results_path :: "env \<Rightarrow> string \<Rightarrow> string \<Rightarrow> string" where
  "results_path e d format = results_root e @ ''/'' @ d @ ''/'' @ results_filename d format"

text \<open>
  For the proofs about \<open>path_join\<close>: the normal forms of \<open>normalizeString\<close> (a block of
  \<open>..\<close>, only where the path may climb above its start, followed by plain segments),
  the normalised segments of a path, the paths that normalise to at least one segment and
  do not end with a slash, and a normalised path written out from its segments.
\<close>

definition nf :: "bool \<Rightarrow> string list \<Rightarrow> bool" where
  "nf a res = (\<exists>k ys. res = replicate k ''..'' @ ys \<and> list_all plain ys \<and> (k = 0 \<or> a))"

definition norm_of :: "string \<Rightarrow> string list" where
  "norm_of p = normalizeString (\<not> isAbsolute p) [] (split_slash p)"

definition good :: "string \<Rightarrow> bool" where
  "good p = (p \<noteq> [] \<and> last p \<noteq> CHR ''/'' \<and> norm_of p \<noteq> [])"

definition render :: "bool \<Rightarrow> string list \<Rightarrow> string" where
  "render a xs = (if a then ''/'' else []) @ join_slash xs"

definition results_base :: "string \<Rightarrow> string" where
  "results_base dn = (if dn = [] then ''results'' else dn @ ''/'' @ ''results'')"

subsection \<open>Accepted domains\<close>

text \<open>
  What the domain pattern accepts, read off the string: one label of 1 to 63 letters,
  digits and hyphens that starts with a letter or digit (and ends with one when it is 63
  long), one dot, and at least two letters.
\<close>

definition single_label_domain :: "string \<Rightarrow> bool" where
  "single_label_domain d =
     (let label = takeWhile (\<lambda>c. \<not> dot c) d;
          suffix = drop (Suc (length label)) d
      in length label < length d \<and>
         1 \<le> length label \<and> length label \<le> 63 \<and>
         alnum (hd label) \<and> list_all alnum_hyphen label \<and>
         (length label < 63 \<or> alnum (last label)) \<and>
         2 \<le> length suffix \<and> list_all alpha suffix)"

text \<open>
  The Domain of the spec's data model, in the spec's words ``a validated DNS-label
  sequence ending in a public-suffix-like label'' (this definition follows the spec, not
  the code): labels are separated by dots; a label has 1 to 63 letters, digits and
  hyphens and neither starts nor ends with a hyphen; the last label has at least two
  letters and nothing else.
\<close>

fun split_dot :: "string \<Rightarrow> string list" where
  "split_dot [] = [[]]"
| "split_dot (c # cs) =
     (if c = CHR ''.'' then [] # split_dot cs
      else (case split_dot cs of [] \<Rightarrow> [[c]] | l # ls \<Rightarrow> (c # l) # ls))"

definition dns_label :: "string \<Rightarrow> bool" where
  "dns_label l =
     (1 \<le> length l \<and> length l \<le> 63 \<and> list_all alnum_hyphen l \<and> alnum (hd l) \<and> alnum (last l))"

definition public_suffix_like :: "string \<Rightarrow> bool" where
  "public_suffix_like l = (2 \<le> length l \<and> list_all alpha l)"

definition dns_label_sequence :: "string \<Rightarrow> bool" where
  "dns_label_sequence d =
     (let labels = split_dot d
      in 2 \<le> length labels \<and> list_all dns_label (butlast labels) \<and>
         public_suffix_like (last labels))"

subsection \<open>Values in range\<close>

text \<open>
  A numeral: decimal digits, at least one, after an optional sign. A value that is an
  integer of the range \<open>lo..hi\<close>: a number that is one, or a string (for an array that
  is the element of an array, the string of its elements joined with commas) that is the
  numeral of one.
\<close>

definition numeral_string :: "string \<Rightarrow> bool" where
  "numeral_string s =
     (case s of
        [] \<Rightarrow> False
      | c # cs \<Rightarrow> if sign c then cs \<noteq> [] \<and> list_all is_digit cs else list_all is_digit s)"

definition integer_string :: "int \<Rightarrow> int \<Rightarrow> string \<Rightarrow> bool" where
  "integer_string lo hi s = (numeral_string s \<and> lo \<le> ToNumber s \<and> ToNumber s \<le> hi)"

definition integer_in :: "int \<Rightarrow> int \<Rightarrow> json \<Rightarrow> bool" where
  "integer_in lo hi v =
     (case v of
        JNum r \<Rightarrow> r = of_int \<lfloor>r\<rfloor> \<and> of_int lo \<le> r \<and> r \<le> of_int hi
      | JStr s \<Rightarrow> integer_string lo hi s
      | JArr xs \<Rightarrow> integer_string lo hi (toString (JArr xs))
      | _ \<Rightarrow> False)"




subsection \<open>The run of a request\<close>

text \<open>
  The events of a process that only carry output, the output they carry, the error that
  starts the fallback, and the effects that are spawns.
\<close>

definition is_data :: "event \<Rightarrow> bool" where
  "is_data ev = (case ev of StdoutData d \<Rightarrow> True | StderrData d \<Rightarrow> True | _ \<Rightarrow> False)"

definition stdout_of :: "event list \<Rightarrow> string" where
  "stdout_of evs = concat (map (\<lambda>ev. case ev of StdoutData d \<Rightarrow> d | _ \<Rightarrow> []) evs)"

definition stderr_of :: "event list \<Rightarrow> string" where
  "stderr_of evs = concat (map (\<lambda>ev. case ev of StderrData d \<Rightarrow> d | _ \<Rightarrow> []) evs)"

definition is_enoent :: "event \<Rightarrow> bool" where
  "is_enoent ev = (case ev of ErrorEv c m \<Rightarrow> c = ''ENOENT'' | _ \<Rightarrow> False)"

definition is_spawn :: "effect \<Rightarrow> bool" where
  "is_spawn eff = (case eff of Spawn cmd args \<Rightarrow> True | _ \<Rightarrow> False)"

text \<open>
  For the request with body \<open>b\<close> and domain \<open>d\<close>: the argument list of its processes, the
  events of its first process (\<open>python3\<close>), the promise of its \<open>executeScript\<close> once all
  events are delivered, and whether its results directory exists or can be made.
\<close>

definition run_args :: "env \<Rightarrow> reqbody \<Rightarrow> string \<Rightarrow> json list" where
  "run_args e b d =
     script_args e d (results_dir e d) (timeout b) (workers b) (verbose b) (jsonOnly b) (csvOnly b)"

definition first_process :: "env \<Rightarrow> reqbody \<Rightarrow> string \<Rightarrow> event list" where
  "first_process e b d = spawn e ''python3'' (run_args e b d)"

definition request_promise :: "env \<Rightarrow> reqbody \<Rightarrow> string \<Rightarrow> script_result promise" where
  "request_promise e b d =
     snd (executeScript e d (results_dir e d) (timeout b) (workers b) (verbose b) (jsonOnly b)
            (csvOnly b))"

definition dir_ok :: "env \<Rightarrow> string \<Rightarrow> bool" where
  "dir_ok e d = (existsSync e (results_dir e d) \<or> mkdirSync e (results_dir e d) = None)"

text \<open>
  What the report file of a domain gives after a run: the parsed report, or the message
  of the error (\<open>fileError\<close>) that sends the handler to the output of the script.
\<close>

definition file_report :: "env \<Rightarrow> string \<Rightarrow> string + json" where
  "file_report e d =
     (case files e (results_path e d ''json'') of
        File data \<Rightarrow>
          (case JSON_parse e data of
             Inr j \<Rightarrow> Inr j
           | Inl m \<Rightarrow> Inl (''Failed to read results file: '' @ m))
      | Missing m \<Rightarrow> Inl m
      | Unreadable m \<Rightarrow> Inl (''Failed to read results file: '' @ m))"

text \<open>Whether \<open>fs.promises.access\<close> passes on a path.\<close>

definition accessible :: "env \<Rightarrow> string \<Rightarrow> bool" where
  "accessible e p = (case files e p of Missing m \<Rightarrow> False | _ \<Rightarrow> True)"

subsection \<open>The invariant of a Report\<close>

text \<open>
  The invariant of the spec's data model, on the JSON form of a Report:
  \<open>total_subdomains\<close> is the number of entries of \<open>subdomains\<close>, and \<open>active_subdomains\<close>
  the number of entries of \<open>active_hosts\<close> whose classification is \<open>active\<close>.
\<close>

fun field :: "string \<Rightarrow> json \<Rightarrow> json option" where
  "field k (JObj kvs) = map_of kvs k"
| "field k j = None"

definition is_active :: "json \<Rightarrow> bool" where
  "is_active h = (field ''classification'' h = Some (JStr ''active''))"

definition report_consistent :: "json \<Rightarrow> bool" where
  "report_consistent r =
     (case field ''total_subdomains'' r of
        Some (JNum t) \<Rightarrow>
          (case field ''subdomains'' r of
             Some (JArr subs) \<Rightarrow>
               (case field ''active_subdomains'' r of
                  Some (JNum a) \<Rightarrow>
                    (case field ''active_hosts'' r of
                       Some (JArr hosts) \<Rightarrow>
                         t = of_nat (length subs) \<and>
                         a = of_nat (length (filter is_active hosts))
                     | _ \<Rightarrow> False)
                | _ \<Rightarrow> False)
           | _ \<Rightarrow> False)
      | _ \<Rightarrow> False)"

subsection \<open>Example environments\<close>

text \<open>
  A server installed in \<open>/srv/server\<close> with no results yet, whose script prints an empty
  JSON object and exits with code 0; and a request for \<open>example.com\<close> with every other
  field absent.
\<close>

definition example_env :: env where
  "example_env =
     \<lparr>dirname = ''/srv/server'', PYTHON_PATH = None,
      existsSync = (\<lambda>p. False), mkdirSync = (\<lambda>p. None),
      files = (\<lambda>p. Missing ''ENOENT: no such file or directory''),
      JSON_parse = (\<lambda>s. if s = ''{}'' then Inr (JObj []) else Inl ''Unexpected token''),
      spawn = (\<lambda>cmd args. if cmd = ''python3'' then [StdoutData ''{}'', Close (Some 0)] else []),
      download = (\<lambda>p. SendError 404),
      startTime = 0, endTime = 1500, toISOString = ''2024-01-15T10:30:00.000Z''\<rparr>"

definition example_body :: reqbody where
  "example_body =
     \<lparr>domain = Some ''example.com'', timeout = None, workers = None, verbose = None,
      jsonOnly = None, csvOnly = None\<rparr>"

text \<open>
  The same server on a host without \<open>python3\<close>, where \<open>python\<close> runs the script; on a
  host where \<open>python3\<close> may not be executed; and with a script that fails with code 1.
  A process that cannot be spawned emits \<open>error\<close> and then \<open>close\<close> with the negated
  error number.
\<close>

definition env_enoent :: env where
  "env_enoent =
     example_env\<lparr>spawn := (\<lambda>cmd args.
        if cmd = ''python3'' then [ErrorEv ''ENOENT'' ''spawn python3 ENOENT'', Close (Some (- 2))]
        else [StdoutData ''{}'', Close (Some 0)])\<rparr>"

definition env_eacces :: env where
  "env_eacces =
     example_env\<lparr>spawn := (\<lambda>cmd args.
        if cmd = ''python3'' then [ErrorEv ''EACCES'' ''spawn python3 EACCES'', Close (Some (- 13))]
        else [])\<rparr>"

definition env_exit1 :: env where
  "env_exit1 =
     example_env\<lparr>spawn := (\<lambda>cmd args.
        if cmd = ''python3'' then [StdoutData ''out'', StderrData ''boom'', Close (Some 1)]
        else [])\<rparr>"

text \<open>
  The same server once the list of subdomains of \<open>example.com\<close> has been written:
  the file exists and \<open>res.download\<close> sends it.
\<close>

definition env_csv :: env where
  "env_csv =
     example_env\<lparr>
       files := (\<lambda>p. if p = ''/srv/server/results/example.com/example.com_subdomains.csv''
                     then File ''hostname'' else Missing ''ENOENT: no such file or directory''),
       download := (\<lambda>p. if p = ''/srv/server/results/example.com/example.com_subdomains.csv''
                     then Sent ''hostname'' else SendError 404)\<rparr>"

text \<open>
  The same server with a report file for \<open>example.com\<close> whose counts do not match its
  lists: three subdomains counted and one listed, one active host counted and none
  listed.
\<close>

definition quoted :: "string \<Rightarrow> string" where
  "quoted s = [CHR 0x22] @ s @ [CHR 0x22]"

definition stale_text :: string where
  "stale_text =
     ''{'' @ quoted ''total_subdomains'' @ '':3,'' @ quoted ''active_subdomains'' @ '':1,'' @
     quoted ''subdomains'' @ '':['' @ quoted ''www.example.com'' @ ''],'' @
     quoted ''active_hosts'' @ '':[]}''"

definition stale_report :: json where
  "stale_report =
     JObj [(''total_subdomains'', JNum 3), (''active_subdomains'', JNum 1),
           (''subdomains'', JArr [JStr ''www.example.com'']), (''active_hosts'', JArr [])]"

definition env_stale :: env where
  "env_stale =
     example_env\<lparr>
       files := (\<lambda>p. if p = ''/srv/server/results/example.com/example.com_reconnaissance_report.json''
                     then File stale_text else Missing ''ENOENT: no such file or directory''),
       JSON_parse := (\<lambda>s. if s = stale_text then Inr stale_report
                          else if s = ''{}'' then Inr (JObj []) else Inl ''Unexpected token'')\<rparr>"

section \<open>Properties\<close>

subsection \<open>The domain pattern\<close>

lemma cls_iff: "r \<in> set (cls P s) \<longleftrightarrow> (\<exists>c. P c \<and> s = c # r)"
  by (auto simp: cls_def split: list.splits)

lemma seq_iff: "r \<in> set (seq m1 m2 s) \<longleftrightarrow> (\<exists>t. t \<in> set (m1 s) \<and> r \<in> set (m2 t))"
  by (auto simp: seq_def)

lemma opt_iff: "r \<in> set (opt m s) \<longleftrightarrow> (r = s \<or> r \<in> set (m s))"
  by (auto simp: opt_def)

lemma rep_upto_cls_iff:
  "r \<in> set (rep_upto n (cls P) s) \<longleftrightarrow> (\<exists>w. s = w @ r \<and> length w \<le> n \<and> list_all P w)"
proof (induction n arbitrary: s)
  case 0
  then show ?case by auto
next
  case (Suc n)
  show ?case
  proof
    assume "r \<in> set (rep_upto (Suc n) (cls P) s)"
    then consider "r = s" | t where "t \<in> set (cls P s)" "r \<in> set (rep_upto n (cls P) t)"
      by auto
    then show "\<exists>w. s = w @ r \<and> length w \<le> Suc n \<and> list_all P w"
    proof cases
      case 1
      then show ?thesis by (intro exI[of _ "[]"]) simp
    next
      case 2
      from 2(1) obtain c where c: "P c" "s = c # t" by (auto simp: cls_iff)
      from 2(2) obtain w where w: "t = w @ r" "length w \<le> n" "list_all P w"
        by (auto simp: Suc.IH)
      show ?thesis using c w by (intro exI[of _ "c # w"]) simp
    qed
  next
    assume "\<exists>w. s = w @ r \<and> length w \<le> Suc n \<and> list_all P w"
    then obtain w where w: "s = w @ r" "length w \<le> Suc n" "list_all P w" by blast
    show "r \<in> set (rep_upto (Suc n) (cls P) s)"
    proof (cases w)
      case Nil
      then show ?thesis using w by simp
    next
      case (Cons c w')
      then have "w' @ r \<in> set (cls P s)" using w by (simp add: cls_iff)
      moreover have "r \<in> set (rep_upto n (cls P) (w' @ r))"
        using w Cons by (auto simp: Suc.IH)
      ultimately show ?thesis by auto
    qed
  qed
qed

lemma star_cls_iff: "r \<in> set (star_cls P s) \<longleftrightarrow> (\<exists>w. s = w @ r \<and> list_all P w)"
proof (induction P s rule: star_cls.induct)
  case (1 P)
  then show ?case by auto
next
  case (2 P c cs)
  show ?case
  proof (cases "P c")
    case True
    show ?thesis
    proof
      assume "r \<in> set (star_cls P (c # cs))"
      then consider "r = c # cs" | "r \<in> set (star_cls P cs)" using True by auto
      then show "\<exists>w. c # cs = w @ r \<and> list_all P w"
      proof cases
        case 1
        then show ?thesis by (intro exI[of _ "[]"]) simp
      next
        case 2
        then obtain w where "cs = w @ r" "list_all P w" using 2 "2.IH" True by auto
        then show ?thesis using True by (intro exI[of _ "c # w"]) simp
      qed
    next
      assume "\<exists>w. c # cs = w @ r \<and> list_all P w"
      then obtain w where w: "c # cs = w @ r" "list_all P w" by blast
      show "r \<in> set (star_cls P (c # cs))"
      proof (cases w)
        case Nil
        then have "r = c # cs" using w by simp
        then show ?thesis using True by simp
      next
        case (Cons a w')
        then have "cs = w' @ r" "list_all P w'" using w by auto
        then have "r \<in> set (star_cls P cs)" using "2.IH" True by auto
        then show ?thesis using True by simp
      qed
    qed
  next
    case False
    show ?thesis
    proof
      assume "r \<in> set (star_cls P (c # cs))"
      then have "r = c # cs" using False by simp
      then show "\<exists>w. c # cs = w @ r \<and> list_all P w" by (intro exI[of _ "[]"]) simp
    next
      assume "\<exists>w. c # cs = w @ r \<and> list_all P w"
      then obtain w where w: "c # cs = w @ r" "list_all P w" by blast
      then have "w = []" using False by (cases w) auto
      then have "r = c # cs" using w by simp
      then show "r \<in> set (star_cls P (c # cs))" using False by simp
    qed
  qed
qed

lemma rep_atleast_iff:
  "r \<in> set (rep_atleast n P s) \<longleftrightarrow> (\<exists>w. s = w @ r \<and> n \<le> length w \<and> list_all P w)"
proof (induction n arbitrary: s)
  case 0
  then show ?case by (simp add: star_cls_iff)
next
  case (Suc n)
  show ?case
  proof
    assume "r \<in> set (rep_atleast (Suc n) P s)"
    then obtain c t where c: "P c" "s = c # t" and t: "r \<in> set (rep_atleast n P t)"
      by (auto simp: seq_iff cls_iff)
    from t obtain w where "t = w @ r" "n \<le> length w" "list_all P w" by (auto simp: Suc.IH)
    then show "\<exists>w. s = w @ r \<and> Suc n \<le> length w \<and> list_all P w"
      using c by (intro exI[of _ "c # w"]) simp
  next
    assume "\<exists>w. s = w @ r \<and> Suc n \<le> length w \<and> list_all P w"
    then obtain w where w: "s = w @ r" "Suc n \<le> length w" "list_all P w" by blast
    then obtain c w' where cw: "w = c # w'" by (cases w) auto
    have "r \<in> set (rep_atleast n P (w' @ r))"
      using w cw by (auto simp: Suc.IH)
    then show "r \<in> set (rep_atleast (Suc n) P s)"
      using w cw by (auto simp: seq_iff cls_iff)
  qed
qed

lemma domain_regex_iff:
  "regex_test domain_regex s \<longleftrightarrow>
     (\<exists>c w e t. s = c # w @ e @ ''.'' @ t \<and> alnum c \<and> length w \<le> 61 \<and> list_all alnum_hyphen w
        \<and> (e = [] \<or> (\<exists>a. e = [a] \<and> alnum a)) \<and> 2 \<le> length t \<and> list_all alpha t)"
  (is "?L \<longleftrightarrow> ?R")
proof
  assume ?L
  then obtain r1 r2 r3 r4 where
    1: "r1 \<in> set (cls alnum s)" and
    2: "r2 \<in> set (rep_upto 61 (cls alnum_hyphen) r1)" and
    3: "r3 \<in> set (opt (cls alnum) r2)" and
    4: "r4 \<in> set (cls dot r3)" and
    5: "[] \<in> set (rep_atleast 2 alpha r4)"
    unfolding regex_test_def domain_regex_def seq_iff by blast
  from 1 obtain c where c: "alnum c" "s = c # r1" by (auto simp: cls_iff)
  from 2 obtain w where w: "r1 = w @ r2" "length w \<le> 61" "list_all alnum_hyphen w"
    by (auto simp: rep_upto_cls_iff)
  from 3 have "r3 = r2 \<or> (\<exists>a. alnum a \<and> r2 = a # r3)" by (simp add: opt_iff cls_iff)
  then obtain e where e: "r2 = e @ r3" "e = [] \<or> (\<exists>a. e = [a] \<and> alnum a)" by auto
  from 4 have d: "r3 = CHR ''.'' # r4" by (auto simp: cls_iff dot_def)
  from 5 have t: "2 \<le> length r4" "list_all alpha r4" by (auto simp: rep_atleast_iff)
  have "s = c # w @ e @ ''.'' @ r4" using c w e d by simp
  then show ?R using c w e t by blast
next
  assume ?R
  then obtain c w e t where s: "s = c # w @ e @ ''.'' @ t" and c: "alnum c"
    and w: "length w \<le> 61" "list_all alnum_hyphen w"
    and e: "e = [] \<or> (\<exists>a. e = [a] \<and> alnum a)" and t: "2 \<le> length t" "list_all alpha t"
    by blast
  have 1: "w @ e @ ''.'' @ t \<in> set (cls alnum s)" using s c by (simp add: cls_iff)
  have 2: "e @ ''.'' @ t \<in> set (rep_upto 61 (cls alnum_hyphen) (w @ e @ ''.'' @ t))"
    using w by (auto simp: rep_upto_cls_iff)
  have 3: "''.'' @ t \<in> set (opt (cls alnum) (e @ ''.'' @ t))"
    using e by (auto simp: opt_iff cls_iff)
  have 4: "t \<in> set (cls dot (''.'' @ t))" by (simp add: cls_iff dot_def)
  have 5: "[] \<in> set (rep_atleast 2 alpha t)" using t by (simp add: rep_atleast_iff)
  show ?L unfolding regex_test_def domain_regex_def seq_iff using 1 2 3 4 5 by blast
qed

lemma char_class_facts:
  "alnum c \<Longrightarrow> alnum_hyphen c" "alpha c \<Longrightarrow> alnum c"
  "alnum_hyphen c \<Longrightarrow> \<not> dot c" "alnum_hyphen c \<Longrightarrow> c \<noteq> CHR ''/''"
  "\<not> dot (CHR ''/'')" "\<not> alnum_hyphen (CHR ''/'')" "\<not> alnum_hyphen (CHR ''.'')"
  by (auto simp: alnum_hyphen_def alnum_def alpha_def dot_def is_lower_def is_upper_def is_digit_def)

subsection \<open>Paths\<close>

lemma split_slash_ne [simp]: "split_slash s \<noteq> []"
  by (induction s) (auto split: list.splits)

lemma split_slash_noslash: "CHR ''/'' \<notin> set s \<Longrightarrow> split_slash s = [s]"
  by (induction s) auto

lemma split_slash_append: "split_slash (a @ CHR ''/'' # b) = split_slash a @ split_slash b"
proof (induction a)
  case Nil
  then show ?case by simp
next
  case (Cons c a)
  obtain seg segs where sa: "split_slash a = seg # segs"
    by (cases "split_slash a") auto
  show ?case using Cons sa by simp
qed

lemma split_slash_segs: "seg \<in> set (split_slash s) \<Longrightarrow> CHR ''/'' \<notin> set seg"
proof (induction s arbitrary: seg)
  case Nil
  then show ?case by simp
next
  case (Cons c s)
  obtain x xs where sa: "split_slash s = x # xs"
    by (cases "split_slash s") auto
  show ?case
  proof (cases "c = CHR ''/''")
    case True
    then show ?thesis using Cons by auto
  next
    case False
    then have "seg = c # x \<or> seg \<in> set xs" using Cons.prems sa by simp
    then show ?thesis using Cons.IH[of x] Cons.IH[of seg] sa False by auto
  qed
qed

lemma join_slash_snoc: "xs \<noteq> [] \<Longrightarrow> join_slash (xs @ [s]) = join_slash xs @ ''/'' @ s"
  by (induction xs rule: join_slash.induct) auto

lemma split_join:
  "xs \<noteq> [] \<Longrightarrow> list_all (\<lambda>x. CHR ''/'' \<notin> set x) xs \<Longrightarrow> split_slash (join_slash xs) = xs"
proof (induction xs rule: join_slash.induct)
  case 1
  then show ?case by simp
next
  case (2 s)
  then show ?case by (simp add: split_slash_noslash)
next
  case (3 s t ss)
  have "split_slash (s @ CHR ''/'' # join_slash (t # ss)) = split_slash s @ split_slash (join_slash (t # ss))"
    by (rule split_slash_append)
  then show ?case using 3 by (simp add: split_slash_noslash)
qed

lemma normalizeString_append:
  "normalizeString a res (xs @ ys) = normalizeString a (normalizeString a res xs) ys"
  by (induction a res xs rule: normalizeString.induct) auto

lemma normalizeString_plain: "list_all plain ys \<Longrightarrow> normalizeString a res ys = res @ ys"
  by (induction ys arbitrary: res) (auto simp: plain_def)

lemma normalizeString_dotdots:
  "k = 0 \<or> a \<Longrightarrow> normalizeString a (replicate j ''..'') (replicate k ''..'') = replicate (j + k) ''..''"
proof (induction k arbitrary: j)
  case 0
  then show ?case by simp
next
  case (Suc k)
  then have a: a by simp
  have "replicate j ''..'' = [] \<or> last (replicate j ''..'') = ''..''"
    by (cases j) auto
  then have "normalizeString a (replicate j ''..'') (replicate (Suc k) ''..'')
      = normalizeString a (replicate j ''..'' @ [''..'']) (replicate k ''..'')"
    using a by auto
  also have "replicate j ''..'' @ [''..''] = replicate (Suc j) ''..''"
    by (simp add: replicate_append_same)
  finally show ?case using Suc.IH[of "Suc j"] a by simp
qed

lemma normalizeString_idem: "nf a res \<Longrightarrow> normalizeString a [] res = res"
proof -
  assume "nf a res"
  then obtain k ys where r: "res = replicate k ''..'' @ ys" "list_all plain ys" "k = 0 \<or> a"
    by (auto simp: nf_def)
  have "normalizeString a [] (replicate k ''..'') = replicate k ''..''"
    using normalizeString_dotdots[of k a 0] r(3) by simp
  then show ?thesis using r by (simp add: normalizeString_append normalizeString_plain)
qed

lemma nf_push_plain: "nf a res \<Longrightarrow> plain seg \<Longrightarrow> nf a (res @ [seg])"
proof -
  assume "nf a res" and p: "plain seg"
  then obtain k ys where r: "res = replicate k ''..'' @ ys" "list_all plain ys" "k = 0 \<or> a"
    unfolding nf_def by blast
  have "res @ [seg] = replicate k ''..'' @ (ys @ [seg])" using r by simp
  moreover have "list_all plain (ys @ [seg])" using r p by simp
  ultimately show ?thesis unfolding nf_def using r(3) by blast
qed

lemma nf_pop: "nf a res \<Longrightarrow> res \<noteq> [] \<Longrightarrow> last res \<noteq> ''..'' \<Longrightarrow> nf a (butlast res)"
proof -
  assume "nf a res" and ne: "res \<noteq> []" and l: "last res \<noteq> ''..''"
  then obtain k ys where r: "res = replicate k ''..'' @ ys" "list_all plain ys" "k = 0 \<or> a"
    unfolding nf_def by blast
  have "ys \<noteq> []"
  proof
    assume "ys = []"
    then have "res = replicate k ''..''" using r by simp
    moreover from this ne have "k \<noteq> 0" by auto
    ultimately have "last res = ''..''" by (simp add: last_replicate)
    then show False using l by simp
  qed
  then have "butlast res = replicate k ''..'' @ butlast ys" using r by (simp add: butlast_append)
  moreover have "list_all plain (butlast ys)"
    using r(2) by (auto simp: list_all_iff dest: in_set_butlastD)
  ultimately show ?thesis unfolding nf_def using r(3) by blast
qed

lemma nf_push_dotdot:
  "nf a res \<Longrightarrow> a \<Longrightarrow> res = [] \<or> last res = ''..'' \<Longrightarrow> nf a (res @ [''..''])"
proof -
  assume "nf a res" and a: a and l: "res = [] \<or> last res = ''..''"
  then obtain k ys where r: "res = replicate k ''..'' @ ys" "list_all plain ys" "k = 0 \<or> a"
    unfolding nf_def by blast
  have "ys = []"
  proof (rule ccontr)
    assume ne: "ys \<noteq> []"
    then have "last res = last ys" "res \<noteq> []" using r by simp_all
    moreover have "plain (last ys)" using r(2) ne by (simp add: list_all_iff)
    ultimately show False using l by (simp add: plain_def)
  qed
  then have "res @ [''..''] = replicate (Suc k) ''..'' @ []"
    using r by (simp add: replicate_append_same)
  moreover have "list_all plain []" by simp
  ultimately show ?thesis unfolding nf_def using a by blast
qed

lemma normalizeString_nf:
  "nf a res \<Longrightarrow> list_all (\<lambda>x. CHR ''/'' \<notin> set x) segs \<Longrightarrow> nf a (normalizeString a res segs)"
proof (induction segs arbitrary: res)
  case Nil
  then show ?case by simp
next
  case (Cons seg segs)
  have s: "CHR ''/'' \<notin> set seg" and ss: "list_all (\<lambda>x. CHR ''/'' \<notin> set x) segs"
    using Cons.prems by simp_all
  consider (skip) "seg = [] \<or> seg = ''.''"
    | (pop) "seg = ''..''" "res \<noteq> [] \<and> last res \<noteq> ''..''"
    | (push) "seg = ''..''" "\<not> (res \<noteq> [] \<and> last res \<noteq> ''..'')" a
    | (drop) "seg = ''..''" "\<not> (res \<noteq> [] \<and> last res \<noteq> ''..'')" "\<not> a"
    | (seg) "seg \<noteq> []" "seg \<noteq> ''.''" "seg \<noteq> ''..''"
    by blast
  then show ?case
  proof cases
    case skip
    then have "normalizeString a res (seg # segs) = normalizeString a res segs" by auto
    then show ?thesis using Cons.IH[OF Cons.prems(1) ss] by simp
  next
    case pop
    then have "normalizeString a res (seg # segs) = normalizeString a (butlast res) segs" by simp
    moreover have "nf a (butlast res)" using nf_pop Cons.prems(1) pop by blast
    ultimately show ?thesis using Cons.IH[OF _ ss] by simp
  next
    case push
    then have "normalizeString a res (seg # segs) = normalizeString a (res @ [''..'']) segs"
      by (cases "res = []") simp_all
    moreover have "nf a (res @ [''..''])" using nf_push_dotdot Cons.prems(1) push by blast
    ultimately show ?thesis using Cons.IH[OF _ ss] by simp
  next
    case drop
    then have "normalizeString a res (seg # segs) = normalizeString a res segs"
      by (cases "res = []") simp_all
    then show ?thesis using Cons.IH[OF Cons.prems(1) ss] by simp
  next
    case seg
    then have "normalizeString a res (seg # segs) = normalizeString a (res @ [seg]) segs" by simp
    moreover have "plain seg" using seg s by (simp add: plain_def)
    then have "nf a (res @ [seg])" using nf_push_plain Cons.prems(1) by blast
    ultimately show ?thesis using Cons.IH[OF _ ss] by simp
  qed
qed

lemma nf_Nil: "nf a []"
  by (simp add: nf_def)

lemma nf_norm_of: "nf (\<not> isAbsolute p) (norm_of p)"
proof -
  have "list_all (\<lambda>x. CHR ''/'' \<notin> set x) (split_slash p)"
    unfolding list_all_iff using split_slash_segs by blast
  then show ?thesis unfolding norm_of_def by (rule normalizeString_nf[OF nf_Nil])
qed

lemma nf_segs: "nf a xs \<Longrightarrow> list_all (\<lambda>x. x \<noteq> [] \<and> CHR ''/'' \<notin> set x) xs"
proof -
  assume "nf a xs"
  then obtain k ys where r: "xs = replicate k ''..'' @ ys" and p: "list_all plain ys"
    unfolding nf_def by blast
  have "list_all (\<lambda>x. x \<noteq> [] \<and> CHR ''/'' \<notin> set x) (replicate k ''..'')"
    by (simp add: list_all_iff)
  moreover have "list_all (\<lambda>x. x \<noteq> [] \<and> CHR ''/'' \<notin> set x) ys"
    using p unfolding list_all_iff plain_def by blast
  ultimately show ?thesis unfolding r by simp
qed

lemma join_slash_ne: "xs \<noteq> [] \<Longrightarrow> list_all (\<lambda>x. x \<noteq> []) xs \<Longrightarrow> join_slash xs \<noteq> []"
  by (induction xs rule: join_slash.induct) auto

lemma join_slash_hd: "xs \<noteq> [] \<Longrightarrow> list_all (\<lambda>x. x \<noteq> []) xs \<Longrightarrow> hd (join_slash xs) = hd (hd xs)"
  by (induction xs rule: join_slash.induct) auto

lemma join_slash_last: "xs \<noteq> [] \<Longrightarrow> list_all (\<lambda>x. x \<noteq> []) xs \<Longrightarrow> last (join_slash xs) = last (last xs)"
  by (induction xs rule: join_slash.induct) (auto simp: join_slash_ne)

lemma isAbsolute_append: "p \<noteq> [] \<Longrightarrow> isAbsolute (p @ q) = isAbsolute p"
  by (cases p) (simp_all add: isAbsolute_def)

lemma plain_single: "plain s \<Longrightarrow> list_all plain [s]"
  by simp

lemma norm_of_step:
  assumes "p \<noteq> []" "plain s"
  shows "norm_of (p @ ''/'' @ s) = norm_of p @ [s]"
proof -
  have ns: "CHR ''/'' \<notin> set s" using assms(2) by (simp add: plain_def)
  have "split_slash (p @ CHR ''/'' # s) = split_slash p @ [s]"
    by (simp add: split_slash_append split_slash_noslash[OF ns])
  moreover have "isAbsolute (p @ CHR ''/'' # s) = isAbsolute p"
    using assms(1) by (rule isAbsolute_append)
  ultimately have "norm_of (p @ CHR ''/'' # s)
      = normalizeString (\<not> isAbsolute p) (norm_of p) [s]"
    unfolding norm_of_def by (simp only: normalizeString_append)
  also have "\<dots> = norm_of p @ [s]"
    by (rule normalizeString_plain[OF plain_single[OF assms(2)]])
  finally show ?thesis by simp
qed

lemma plain_last: "plain s \<Longrightarrow> last s \<noteq> CHR ''/''"
  by (cases s rule: rev_cases) (auto simp: plain_def)

lemma good_step: "p \<noteq> [] \<Longrightarrow> plain s \<Longrightarrow> good (p @ ''/'' @ s)"
proof -
  assume p: "p \<noteq> []" and s: "plain s"
  have "s \<noteq> []" using s by (simp add: plain_def)
  then have "last (p @ ''/'' @ s) = last s" by simp
  then have "last (p @ ''/'' @ s) \<noteq> CHR ''/''" using plain_last[OF s] by simp
  moreover have "norm_of (p @ ''/'' @ s) \<noteq> []" using norm_of_step[OF p s] by simp
  ultimately show ?thesis unfolding good_def by simp
qed

lemma plain_not_absolute: "plain s \<Longrightarrow> \<not> isAbsolute s"
  by (cases s) (auto simp: plain_def isAbsolute_def)

lemma norm_of_plain: "plain s \<Longrightarrow> norm_of s = [s]"
proof -
  assume s: "plain s"
  have "split_slash s = [s]" using s by (simp add: split_slash_noslash plain_def)
  then show ?thesis unfolding norm_of_def
    using normalizeString_plain[OF plain_single[OF s], of "\<not> isAbsolute s" "[]"] by simp
qed

lemma good_plain: "plain s \<Longrightarrow> good s"
  unfolding good_def using plain_last norm_of_plain by (auto simp: plain_def)

lemma norm_of_segs_ne: "list_all (\<lambda>x. x \<noteq> []) (norm_of p)"
  using nf_segs[OF nf_norm_of, of p] by (simp add: list_all_iff)

lemma path_normalize_good: "good p \<Longrightarrow> path_normalize p = render (isAbsolute p) (norm_of p)"
proof -
  assume g: "good p"
  then have "join_slash (norm_of p) \<noteq> []"
    using join_slash_ne[OF _ norm_of_segs_ne] by (simp add: good_def)
  then show ?thesis using g
    by (simp add: path_normalize_def good_def render_def norm_of_def Let_def)
qed

lemma path_normalize_step:
  assumes "good p" "plain s"
  shows "path_normalize (p @ ''/'' @ s) = path_normalize p @ ''/'' @ s"
proof -
  have p: "p \<noteq> []" and n: "norm_of p \<noteq> []" using assms(1) by (simp_all add: good_def)
  have "path_normalize (p @ ''/'' @ s) = render (isAbsolute (p @ ''/'' @ s)) (norm_of (p @ ''/'' @ s))"
    by (rule path_normalize_good[OF good_step[OF p assms(2)]])
  also have "\<dots> = render (isAbsolute p) (norm_of p @ [s])"
    using norm_of_step[OF p assms(2)] isAbsolute_append[OF p] by simp
  also have "\<dots> = render (isAbsolute p) (norm_of p) @ ''/'' @ s"
    unfolding render_def using join_slash_snoc[OF n] by simp
  finally show ?thesis using path_normalize_good[OF assms(1)] by simp
qed

lemma split_slash_render:
  assumes "xs \<noteq> []" "list_all (\<lambda>x. x \<noteq> [] \<and> CHR ''/'' \<notin> set x) xs"
  shows "isAbsolute (render a xs) = a"
    and "normalizeString b [] (split_slash (render a xs)) = normalizeString b [] xs"
    and "render a xs \<noteq> []"
    and "last (render a xs) \<noteq> CHR ''/''"
proof -
  have ne: "list_all (\<lambda>x. x \<noteq> []) xs" and ns: "list_all (\<lambda>x. CHR ''/'' \<notin> set x) xs"
    using assms(2) by (simp_all add: list_all_iff)
  have j: "join_slash xs \<noteq> []" by (rule join_slash_ne[OF assms(1) ne])
  have hx: "hd xs \<noteq> []" "CHR ''/'' \<notin> set (hd xs)" "last xs \<noteq> []" "CHR ''/'' \<notin> set (last xs)"
    using assms by (simp_all add: list_all_iff)
  have "hd (hd xs) \<in> set (hd xs)" using hx(1) by simp
  then have h: "hd (join_slash xs) \<noteq> CHR ''/''"
    using join_slash_hd[OF assms(1) ne] hx(2) by auto
  have "last (last xs) \<in> set (last xs)" using hx(3) by simp
  then have l: "last (join_slash xs) \<noteq> CHR ''/''"
    using join_slash_last[OF assms(1) ne] hx(4) by auto
  show "isAbsolute (render a xs) = a"
    using h j by (cases "join_slash xs") (auto simp: render_def isAbsolute_def)
  have sp: "split_slash (join_slash xs) = xs" by (rule split_join[OF assms(1) ns])
  show "normalizeString b [] (split_slash (render a xs)) = normalizeString b [] xs"
    using sp by (simp add: render_def)
  show "render a xs \<noteq> []" using j by (simp add: render_def)
  show "last (render a xs) \<noteq> CHR ''/''" using l j by (simp add: render_def)
qed

lemma path_normalize_idem:
  assumes "good p"
  shows "good (path_normalize p)" and "path_normalize (path_normalize p) = path_normalize p"
proof -
  let ?a = "isAbsolute p"
  let ?xs = "norm_of p"
  let ?q = "render ?a ?xs"
  have q: "path_normalize p = ?q" by (rule path_normalize_good[OF assms])
  have n: "?xs \<noteq> []" using assms by (simp add: good_def)
  have segs: "list_all (\<lambda>x. x \<noteq> [] \<and> CHR ''/'' \<notin> set x) ?xs"
    by (rule nf_segs[OF nf_norm_of])
  note r = split_slash_render[OF n segs]
  have "norm_of ?q = normalizeString (\<not> ?a) [] ?xs"
    unfolding norm_of_def[of ?q] using r(1)[of ?a] r(2)[of "\<not> ?a" ?a] by simp
  also have "\<dots> = ?xs" by (rule normalizeString_idem[OF nf_norm_of])
  finally have nq: "norm_of ?q = ?xs" .
  have gq: "good ?q" unfolding good_def using r(3)[of ?a] r(4)[of ?a] nq n by simp
  show "good (path_normalize p)" using gq q by simp
  have "path_normalize ?q = render (isAbsolute ?q) (norm_of ?q)"
    by (rule path_normalize_good[OF gq])
  then show "path_normalize (path_normalize p) = path_normalize p"
    using q nq r(1)[of ?a] by simp
qed

lemma path_normalize_ne: "path_normalize p \<noteq> []"
  by (simp add: path_normalize_def Let_def)

lemma path_join_ne: "path_join parts \<noteq> []"
  by (simp add: path_join_def Let_def path_normalize_ne)

lemma plain_results: "plain ''results''"
  by (simp add: plain_def)

lemma good_results_base: "good (results_base dn)"
  unfolding results_base_def
  using good_plain[OF plain_results] good_step[OF _ plain_results, of dn] by simp

lemma results_base_ne: "results_base dn \<noteq> []"
  using good_results_base[of dn] by (simp add: good_def)

lemma path_join_root: "path_join [dn, ''results''] = path_normalize (results_base dn)"
  by (simp add: path_join_def results_base_def)

lemma path_join_dir:
  assumes "plain d"
  shows "path_join [dn, ''results'', d] = path_join [dn, ''results''] @ ''/'' @ d"
proof -
  have d: "d \<noteq> []" using assms by (simp add: plain_def)
  have "path_join [dn, ''results'', d] = path_normalize (results_base dn @ ''/'' @ d)"
    using d by (simp add: path_join_def results_base_def)
  then show ?thesis
    using path_normalize_step[OF good_results_base assms, of dn] path_join_root by simp
qed

lemma path_join_file:
  assumes "plain d" "plain f"
  shows "path_join [dn, ''results'', d, f] = path_join [dn, ''results''] @ ''/'' @ d @ ''/'' @ f"
proof -
  have d: "d \<noteq> []" and f: "f \<noteq> []" using assms by (simp_all add: plain_def)
  have g: "good (results_base dn @ ''/'' @ d)"
    by (rule good_step[OF results_base_ne assms(1)])
  have "path_join [dn, ''results'', d, f]
      = path_normalize ((results_base dn @ ''/'' @ d) @ ''/'' @ f)"
    using d f by (simp add: path_join_def results_base_def)
  also have "\<dots> = path_normalize (results_base dn @ ''/'' @ d) @ ''/'' @ f"
    by (rule path_normalize_step[OF g assms(2)])
  also have "\<dots> = (path_normalize (results_base dn) @ ''/'' @ d) @ ''/'' @ f"
    using path_normalize_step[OF good_results_base assms(1), of dn] by simp
  finally show ?thesis using path_join_root by simp
qed

lemma path_join_nested:
  assumes "plain d" "plain f"
  shows "path_join [path_join [dn, ''results'', d], f]
      = path_join [dn, ''results''] @ ''/'' @ d @ ''/'' @ f"
proof -
  have d: "d \<noteq> []" and f: "f \<noteq> []" using assms by (simp_all add: plain_def)
  let ?p = "results_base dn @ ''/'' @ d"
  have g: "good ?p" by (rule good_step[OF results_base_ne assms(1)])
  have q: "path_join [dn, ''results'', d] = path_normalize ?p"
    using d by (simp add: path_join_def results_base_def)
  have "path_join [path_normalize ?p, f] = path_normalize (path_normalize ?p @ ''/'' @ f)"
    using f path_normalize_ne[of ?p] by (simp add: path_join_def)
  also have "\<dots> = path_normalize (path_normalize ?p) @ ''/'' @ f"
    by (rule path_normalize_step[OF path_normalize_idem(1)[OF g] assms(2)])
  also have "\<dots> = path_normalize ?p @ ''/'' @ f"
    using path_normalize_idem(2)[OF g] by simp
  also have "\<dots> = (path_normalize (results_base dn) @ ''/'' @ d) @ ''/'' @ f"
    using path_normalize_step[OF good_results_base assms(1), of dn] by simp
  finally show ?thesis using q path_join_root by simp
qed

subsection \<open>Accepted domains\<close>

lemma takeWhile_nodot:
  "list_all (\<lambda>c. \<not> dot c) l \<Longrightarrow> takeWhile (\<lambda>c. \<not> dot c) (l @ CHR ''.'' # t) = l"
  by (induction l) (auto simp: dot_def)

lemma domain_regex_shape: "regex_test domain_regex d \<longleftrightarrow> single_label_domain d"
proof
  assume "regex_test domain_regex d"
  then obtain c w e t where d: "d = c # w @ e @ ''.'' @ t" and c: "alnum c"
    and w: "length w \<le> 61" "list_all alnum_hyphen w"
    and e: "e = [] \<or> (\<exists>a. e = [a] \<and> alnum a)" and t: "2 \<le> length t" "list_all alpha t"
    unfolding domain_regex_iff by blast
  let ?l = "c # w @ e"
  have eh: "list_all alnum_hyphen e" using e by (auto simp: char_class_facts)
  have lh: "list_all alnum_hyphen ?l" using c w eh by (simp add: char_class_facts)
  then have nd: "list_all (\<lambda>c. \<not> dot c) ?l"
    unfolding list_all_iff using char_class_facts(3) by blast
  have dl: "d = ?l @ CHR ''.'' # t" using d by simp
  have tw: "takeWhile (\<lambda>c. \<not> dot c) d = ?l"
    unfolding dl by (rule takeWhile_nodot[OF nd])
  have dr: "drop (Suc (length ?l)) d = t" unfolding dl by simp
  have len: "length ?l \<le> 63" using w e by auto
  have lst: "length ?l < 63 \<or> alnum (last ?l)" using w e by auto
  have "length ?l < length d" unfolding dl by simp
  then show "single_label_domain d"
    unfolding single_label_domain_def Let_def tw dr using len lst lh c t by simp
next
  assume s: "single_label_domain d"
  define l where "l = takeWhile (\<lambda>c. \<not> dot c) d"
  define t where "t = drop (Suc (length l)) d"
  have p: "length l < length d" "1 \<le> length l" "length l \<le> 63" "alnum (hd l)"
    "list_all alnum_hyphen l" "length l < 63 \<or> alnum (last l)" "2 \<le> length t" "list_all alpha t"
    using s unfolding single_label_domain_def Let_def l_def t_def by simp_all
  have dd: "d = l @ dropWhile (\<lambda>c. \<not> dot c) d" unfolding l_def by simp
  have "dropWhile (\<lambda>c. \<not> dot c) d \<noteq> []" using p(1) dd
    by (metis append_Nil2 less_irrefl)
  then obtain x r where xr: "dropWhile (\<lambda>c. \<not> dot c) d = x # r"
    by (cases "dropWhile (\<lambda>c. \<not> dot c) d") auto
  have "dot x" using hd_dropWhile[of "\<lambda>c. \<not> dot c" d] xr by auto
  then have x: "x = CHR ''.''" by (simp add: dot_def)
  have dl: "d = l @ CHR ''.'' # r" using dd xr x by simp
  have "t = r" unfolding t_def by (subst dl) simp
  then have dt: "d = l @ ''.'' @ t" using dl by simp
  obtain c rest where l: "l = c # rest" using p(2) by (cases l) auto
  have c: "alnum c" using p(4) l by simp
  have rest: "list_all alnum_hyphen rest" "length rest \<le> 62" using p(5) p(3) l by simp_all
  show "regex_test domain_regex d"
  proof (cases "length rest \<le> 61")
    case True
    have "d = c # rest @ [] @ ''.'' @ t" using dt l by simp
    then show ?thesis unfolding domain_regex_iff using c rest True p(7,8) by blast
  next
    case False
    then have len: "length rest = 62" using rest(2) by simp
    then have ne: "rest \<noteq> []" by auto
    have "length l = 63" using l len by simp
    then have "alnum (last l)" using p(6) by simp
    then have la: "alnum (last rest)" using l ne by simp
    have br: "rest = butlast rest @ [last rest]" using ne by simp
    have "d = c # butlast rest @ [last rest] @ ''.'' @ t" using dt l br by simp
    moreover have "length (butlast rest) \<le> 61" using len by simp
    moreover have "list_all alnum_hyphen (butlast rest)"
      using rest(1) by (auto simp: list_all_iff dest: in_set_butlastD)
    ultimately show ?thesis unfolding domain_regex_iff using c la p(7,8) by blast
  qed
qed

lemma domain_regex_chars:
  assumes "regex_test domain_regex d"
  shows "list_all (\<lambda>c. alnum_hyphen c \<or> dot c) d"
    and "length (filter dot d) = 1"
    and "d \<noteq> []" and "alnum (hd d)"
    and "list_all alpha (tl (dropWhile (\<lambda>c. \<not> dot c) d))"
proof -
  from assms obtain c w e t where d: "d = c # w @ e @ ''.'' @ t" and c: "alnum c"
    and w: "length w \<le> 61" "list_all alnum_hyphen w"
    and e: "e = [] \<or> (\<exists>a. e = [a] \<and> alnum a)" and t: "2 \<le> length t" "list_all alpha t"
    unfolding domain_regex_iff by blast
  let ?l = "c # w @ e"
  have eh: "list_all alnum_hyphen e" using e by (auto simp: char_class_facts)
  have lh: "list_all alnum_hyphen ?l" using c w eh by (simp add: char_class_facts)
  have nd: "list_all (\<lambda>c. \<not> dot c) ?l"
    using lh unfolding list_all_iff using char_class_facts(3) by blast
  have th: "list_all alnum_hyphen t"
    using t(2) unfolding list_all_iff using char_class_facts(1,2) by blast
  have tnd: "list_all (\<lambda>c. \<not> dot c) t"
    using th unfolding list_all_iff using char_class_facts(3) by blast
  have dl: "d = ?l @ CHR ''.'' # t" using d by simp
  have f1: "filter dot ?l = []" using nd by (simp add: list_all_iff filter_empty_conv)
  have f2: "filter dot t = []" using tnd by (simp add: list_all_iff filter_empty_conv)
  have "filter dot d = filter dot ?l @ [CHR ''.''] @ filter dot t"
    unfolding dl by (simp add: dot_def)
  then show "length (filter dot d) = 1" using f1 f2 by simp
  show "list_all (\<lambda>c. alnum_hyphen c \<or> dot c) d"
    unfolding dl using lh th by (auto simp: list_all_iff dot_def)
  show "d \<noteq> []" using d by simp
  show "alnum (hd d)" using d c by simp
  have "dropWhile (\<lambda>c. \<not> dot c) d = CHR ''.'' # t"
    unfolding dl using nd by (simp add: dropWhile_append3 list_all_iff dot_def)
  then show "list_all alpha (tl (dropWhile (\<lambda>c. \<not> dot c) d))" using t(2) by simp
qed

lemma domain_plain: "regex_test domain_regex d \<Longrightarrow> plain d"
proof -
  assume a: "regex_test domain_regex d"
  note f = domain_regex_chars[OF a]
  have ns: "CHR ''/'' \<notin> set d"
    using f(1) unfolding list_all_iff using char_class_facts(5,6) by blast
  have "d \<noteq> ''.''" "d \<noteq> ''..''" using f(4) by (auto simp: alnum_def is_lower_def is_upper_def is_digit_def)
  then show ?thesis unfolding plain_def using ns f(3) by simp
qed

lemma filename_plain: "CHR ''/'' \<notin> set d \<Longrightarrow> plain (results_filename d format)"
  by (auto simp: plain_def results_filename_def)

subsection \<open>The child process\<close>

lemma resolve_settled: "p \<noteq> Pending \<Longrightarrow> resolve v p = p"
  by (cases p) (simp_all add: resolve_def)

lemma reject_settled: "p \<noteq> Pending \<Longrightarrow> reject m p = p"
  by (cases p) (simp_all add: reject_def)

lemma handle_settled: "p \<noteq> Pending \<Longrightarrow> snd (handlePythonProcess_on ev (h, p)) = p"
  by (cases ev) (simp_all add: handlePythonProcess_on_def resolve_settled reject_settled)

lemma fold_handle_settled:
  "p \<noteq> Pending \<Longrightarrow> snd (fold handlePythonProcess_on evs (h, p)) = p"
proof (induction evs arbitrary: h)
  case Nil
  then show ?case by simp
next
  case (Cons ev evs)
  obtain h' p' where st: "handlePythonProcess_on ev (h, p) = (h', p')"
    by (cases "handlePythonProcess_on ev (h, p)") auto
  then have "p' = p" using handle_settled[OF Cons.prems, of ev h] by simp
  then show ?case using Cons st by simp
qed

lemma fallback_settled: "p \<noteq> Pending \<Longrightarrow> fallback_process evs p = p"
  unfolding fallback_process_def by (rule fold_handle_settled)

lemma fallbacks_settled: "p \<noteq> Pending \<Longrightarrow> ((fallback_process evs) ^^ n) p = p"
  by (induction n) (simp_all add: fallback_settled)

lemma on_error_settled: "p \<noteq> Pending \<Longrightarrow> fst (executeScript_on_error ev (p, n)) = p"
  by (cases ev) (simp_all add: executeScript_on_error_def reject_settled)

lemma first_settled: "p \<noteq> Pending \<Longrightarrow> fst (snd (first_process_on ev (h, p, n))) = p"
proof -
  assume s: "p \<noteq> Pending"
  obtain p1 n1 where a: "executeScript_on_error ev (p, n) = (p1, n1)"
    by (cases "executeScript_on_error ev (p, n)") auto
  then have p1: "p1 = p" using on_error_settled[OF s, of ev n] by simp
  obtain h2 p2 where b: "handlePythonProcess_on ev (h, p1) = (h2, p2)"
    by (cases "handlePythonProcess_on ev (h, p1)") auto
  then have "p2 = p" using handle_settled[of p1 ev h] p1 s by simp
  then show ?thesis using a b by (simp add: first_process_on_def)
qed

lemma fold_first_settled:
  "p \<noteq> Pending \<Longrightarrow> fst (snd (fold first_process_on evs (h, p, n))) = p"
proof (induction evs arbitrary: h n)
  case Nil
  then show ?case by simp
next
  case (Cons ev evs)
  obtain h' p' n' where st: "first_process_on ev (h, p, n) = (h', p', n')"
    by (cases "first_process_on ev (h, p, n)") auto
  then have "p' = p" using first_settled[OF Cons.prems, of ev h n] by simp
  then show ?case using Cons st by simp
qed

lemma first_data:
  "is_data ev \<Longrightarrow> first_process_on ev (h, p, n) =
     (\<lparr>stdout = stdout h @ stdout_of [ev], stderr = stderr h @ stderr_of [ev]\<rparr>, p, n)"
  by (cases ev)
    (simp_all add: is_data_def first_process_on_def executeScript_on_error_def
      handlePythonProcess_on_def stdout_of_def stderr_of_def)

lemma fold_first_data:
  "list_all is_data pre \<Longrightarrow> fold first_process_on pre (h, p, n) =
     (\<lparr>stdout = stdout h @ stdout_of pre, stderr = stderr h @ stderr_of pre\<rparr>, p, n)"
proof (induction pre arbitrary: h)
  case Nil
  then show ?case by (simp add: stdout_of_def stderr_of_def)
next
  case (Cons ev pre)
  have d: "is_data ev" and ds: "list_all is_data pre" using Cons.prems by simp_all
  show ?case
    using Cons.IH[OF ds] first_data[OF d, of h p n]
    by (simp add: stdout_of_def stderr_of_def)
qed

lemma first_inv:
  "n = 0 \<or> p \<noteq> Pending \<Longrightarrow> first_process_on ev (h, p, n) = (h', p', n') \<Longrightarrow>
   n' = 0 \<or> p' \<noteq> Pending"
  by (cases ev; cases p)
    (auto simp: first_process_on_def executeScript_on_error_def handlePythonProcess_on_def
      resolve_def reject_def split: if_splits)

lemma fold_first_inv:
  "n = 0 \<or> p \<noteq> Pending \<Longrightarrow> fold first_process_on evs (h, p, n) = (h', p', n') \<Longrightarrow>
   n' = 0 \<or> p' \<noteq> Pending"
proof (induction evs arbitrary: h p n)
  case Nil
  then show ?case by simp
next
  case (Cons ev evs)
  obtain h1 p1 n1 where st: "first_process_on ev (h, p, n) = (h1, p1, n1)"
    by (cases "first_process_on ev (h, p, n)") auto
  have "n1 = 0 \<or> p1 \<noteq> Pending" by (rule first_inv[OF Cons.prems(1) st])
  then show ?case using Cons.IH[of n1 p1 h1] Cons.prems(2) st by simp
qed

lemma first_count:
  "first_process_on ev (h, p, n) = (h', p', n') \<Longrightarrow> n' = n + (if is_enoent ev then 1 else 0)"
  by (cases ev)
    (auto simp: first_process_on_def executeScript_on_error_def handlePythonProcess_on_def
      is_enoent_def split: if_splits prod.splits)

lemma fold_first_count:
  "fold first_process_on evs (h, p, n) = (h', p', n') \<Longrightarrow> n' = n + length (filter is_enoent evs)"
proof (induction evs arbitrary: h p n)
  case Nil
  then show ?case by simp
next
  case (Cons ev evs)
  obtain h1 p1 n1 where st: "first_process_on ev (h, p, n) = (h1, p1, n1)"
    by (cases "first_process_on ev (h, p, n)") auto
  have "n1 = n + (if is_enoent ev then 1 else 0)" by (rule first_count[OF st])
  then show ?case using Cons.IH[of h1 p1 n1] Cons.prems st by simp
qed

text \<open>The promise of \<open>executeScript\<close> is decided by the first process alone.\<close>

lemma executeScript_promise:
  "snd (executeScript e d dir t w v j c) =
     fst (snd (fold first_process_on (spawn e ''python3'' (script_args e d dir t w v j c))
       (\<lparr>stdout = [], stderr = []\<rparr>, Pending, 0)))"
proof -
  let ?args = "script_args e d dir t w v j c"
  obtain h p n where f: "fold first_process_on (spawn e ''python3'' ?args)
       (\<lparr>stdout = [], stderr = []\<rparr>, Pending, 0) = (h, p, n)"
    using prod_cases3 by blast
  have inv: "n = 0 \<or> p \<noteq> Pending" using fold_first_inv[OF _ f] by simp
  have "((fallback_process (spawn e ''python'' ?args)) ^^ n) p = p"
    using inv fallbacks_settled by (cases "n = 0") auto
  then show ?thesis using f by (simp add: executeScript_def Let_def)
qed

lemma executeScript_effects:
  "fst (executeScript e d dir t w v j c) =
     Spawn ''python3'' (script_args e d dir t w v j c) #
     replicate (length (filter is_enoent (spawn e ''python3'' (script_args e d dir t w v j c))))
       (Spawn ''python'' (script_args e d dir t w v j c))"
proof -
  let ?args = "script_args e d dir t w v j c"
  obtain h p n where f: "fold first_process_on (spawn e ''python3'' ?args)
       (\<lparr>stdout = [], stderr = []\<rparr>, Pending, 0) = (h, p, n)"
    using prod_cases3 by blast
  have "n = length (filter is_enoent (spawn e ''python3'' ?args))"
    using fold_first_count[OF f] by simp
  then show ?thesis using f by (simp add: executeScript_def Let_def)
qed

lemma run_close:
  assumes "spawn e ''python3'' (script_args e d dir t w v j c) = pre @ Close code # rest"
    and "list_all is_data pre"
  shows "snd (executeScript e d dir t w v j c) =
     (if code = Some 0 then
        Resolved \<lparr>success = True, message = ''Reconnaissance completed successfully'',
                  script_output = stdout_of pre\<rparr>
      else
        Rejected (''Script exited with code '' @ show_code code @ [CHR 0x0A] @
                  ''STDOUT: '' @ stdout_of pre @ [CHR 0x0A] @ ''STDERR: '' @ stderr_of pre))"
proof -
  let ?h = "\<lparr>stdout = stdout_of pre, stderr = stderr_of pre\<rparr>"
  let ?p = "(if code = Some 0 then
        Resolved \<lparr>success = True, message = ''Reconnaissance completed successfully'',
                  script_output = stdout_of pre\<rparr>
      else
        Rejected (''Script exited with code '' @ show_code code @ [CHR 0x0A] @
                  ''STDOUT: '' @ stdout_of pre @ [CHR 0x0A] @ ''STDERR: '' @ stderr_of pre))"
  have a: "fold first_process_on pre (\<lparr>stdout = [], stderr = []\<rparr>, Pending, 0) = (?h, Pending, 0)"
    using fold_first_data[OF assms(2), of "\<lparr>stdout = [], stderr = []\<rparr>" Pending 0] by simp
  have b: "first_process_on (Close code) (?h, Pending, 0) = (?h, ?p, 0)"
    by (simp add: first_process_on_def executeScript_on_error_def handlePythonProcess_on_def
        resolve_def reject_def)
  have s: "?p \<noteq> Pending" by simp
  have "fst (snd (fold first_process_on rest (?h, ?p, 0))) = ?p"
    by (rule fold_first_settled[OF s])
  then show ?thesis
    unfolding executeScript_promise assms(1) using a b by simp
qed

lemma run_error:
  assumes "spawn e ''python3'' (script_args e d dir t w v j c) = pre @ ErrorEv code m # rest"
    and "list_all is_data pre"
  shows "snd (executeScript e d dir t w v j c) = Rejected (''Error executing script: '' @ m)"
proof -
  let ?h = "\<lparr>stdout = stdout_of pre, stderr = stderr_of pre\<rparr>"
  let ?p = "Rejected (''Error executing script: '' @ m) :: script_result promise"
  have a: "fold first_process_on pre (\<lparr>stdout = [], stderr = []\<rparr>, Pending, 0) = (?h, Pending, 0)"
    using fold_first_data[OF assms(2), of "\<lparr>stdout = [], stderr = []\<rparr>" Pending 0] by simp
  have b: "fst (snd (first_process_on (ErrorEv code m) (?h, Pending, 0))) = ?p"
    by (simp add: first_process_on_def executeScript_on_error_def handlePythonProcess_on_def
        reject_def)
  obtain h1 n1 where c: "first_process_on (ErrorEv code m) (?h, Pending, 0) = (h1, ?p, n1)"
    using b by (cases "first_process_on (ErrorEv code m) (?h, Pending, 0)") auto
  have s: "?p \<noteq> Pending" by simp
  have "fst (snd (fold first_process_on rest (h1, ?p, n1))) = ?p"
    by (rule fold_first_settled[OF s])
  then show ?thesis
    unfolding executeScript_promise assms(1) using a c by simp
qed

lemma run_pending:
  assumes "list_all is_data (spawn e ''python3'' (script_args e d dir t w v j c))"
  shows "snd (executeScript e d dir t w v j c) = Pending"
  unfolding executeScript_promise using fold_first_data[OF assms] by simp

subsection \<open>Reading and downloading results\<close>

lemma domain_file_plain:
  assumes "regex_test domain_regex d"
  shows "plain d" and "plain (results_filename d format)"
proof -
  show d: "plain d" by (rule domain_plain[OF assms])
  then have "CHR ''/'' \<notin> set d" by (simp add: plain_def)
  then show "plain (results_filename d format)" by (rule filename_plain)
qed

lemma readResults_path:
  assumes "regex_test domain_regex d"
  shows "path_join [path_join [dirname e, ''results'', d], results_filename d format]
     = results_path e d format"
  unfolding results_path_def results_root_def
  by (rule path_join_nested[OF domain_file_plain[OF assms]])

lemma download_path:
  assumes "regex_test domain_regex d"
  shows "path_join [dirname e, ''results'', d, results_filename d format] = results_path e d format"
  unfolding results_path_def results_root_def
  by (rule path_join_file[OF domain_file_plain[OF assms]])

lemma readResults_valid:
  assumes "regex_test domain_regex d"
  shows "readResults e (path_join [dirname e, ''results'', d]) d format =
     ([ReadFileSync (results_path e d format)],
      (case files e (results_path e d format) of
         File data \<Rightarrow>
           if format = ''json'' then
             (case JSON_parse e data of
                Inr j \<Rightarrow> Inr j
              | Inl m \<Rightarrow> Inl (''Failed to read results file: '' @ m))
           else Inr (JStr data)
       | Missing m \<Rightarrow> Inl (''Failed to read results file: '' @ m)
       | Unreadable m \<Rightarrow> Inl (''Failed to read results file: '' @ m)))"
  unfolding readResults_def Let_def readResults_path[OF assms] by simp

lemma get_results_effects:
  "effects (get_results e d fmt) =
     (if regex_test domain_regex d then [ReadFileSync (results_path e d (query_format fmt))] else [])"
proof (cases "regex_test domain_regex d")
  case True
  show ?thesis
    unfolding get_results_def Let_def readResults_valid[OF True]
    using True by (simp split: sum.splits)
next
  case False
  then show ?thesis by (simp add: get_results_def)
qed

lemma get_download_valid:
  assumes "regex_test domain_regex d"
  shows "get_download e d fmt =
     (if accessible e (results_path e d (query_format fmt)) then
        \<lparr>response = Some (file_download (query_format fmt) (results_filename d (query_format fmt))
                            (download e (results_path e d (query_format fmt)))),
         effects = [Access (results_path e d (query_format fmt)),
                    Download (results_path e d (query_format fmt))
                      (results_filename d (query_format fmt))]\<rparr>
      else \<lparr>response = Some (file_not_found d),
            effects = [Access (results_path e d (query_format fmt))]\<rparr>)"
  unfolding get_download_def Let_def download_path[OF assms] accessible_def
  using assms by (simp split: file_state.splits)

lemma get_download_effects:
  "effects (get_download e d fmt) =
     (if \<not> regex_test domain_regex d then []
      else if accessible e (results_path e d (query_format fmt)) then
        [Access (results_path e d (query_format fmt)),
         Download (results_path e d (query_format fmt)) (results_filename d (query_format fmt))]
      else [Access (results_path e d (query_format fmt))])"
proof (cases "regex_test domain_regex d")
  case True
  show ?thesis using True by (simp add: get_download_valid[OF True])
next
  case False
  then show ?thesis by (simp add: get_download_def)
qed

subsection \<open>The example environment\<close>

lemma example_domain: "regex_test domain_regex ''example.com''"
  by code_simp

lemma example_root: "path_join [dirname example_env, ''results''] = ''/srv/server/results''"
  by (simp add: example_env_def path_join_def path_normalize_def isAbsolute_def)

lemma domain_no_dotdot:
  assumes "regex_test domain_regex d"
  shows "\<not> sublist ''..'' d"
proof
  assume "sublist ''..'' d"
  then obtain ps ss where "d = ps @ ''..'' @ ss" unfolding sublist_def by blast
  then have "filter dot d = filter dot ps @ ''..'' @ filter dot ss" by (simp add: dot_def)
  then have "2 \<le> length (filter dot d)" by simp
  then show False using domain_regex_chars(2)[OF assms] by simp
qed

lemma domain_no_slash:
  assumes "regex_test domain_regex d"
  shows "CHR ''/'' \<notin> set d"
  using domain_plain[OF assms] by (simp add: plain_def)

lemma traversal_rejected: "\<not> regex_test domain_regex ''../../etc/passwd''"
  by code_simp

subsection \<open>The validation of the request\<close>

lemma intLeadingZeroes_iff: "regex_test intLeadingZeroes s \<longleftrightarrow> numeral_string s"
proof -
  have d: "[] \<in> set (rep_atleast 1 is_digit t) \<longleftrightarrow> t \<noteq> [] \<and> list_all is_digit t" for t
  proof -
    have "[] \<in> set (rep_atleast 1 is_digit t) \<longleftrightarrow>
        (\<exists>w. t = w @ [] \<and> 1 \<le> length w \<and> list_all is_digit w)"
      by (rule rep_atleast_iff)
    then show ?thesis by (auto simp: Suc_le_eq)
  qed
  have n: "\<And>c. is_digit c \<Longrightarrow> \<not> sign c"
    by (auto simp: is_digit_def sign_def Let_def)
  have m: "regex_test intLeadingZeroes s \<longleftrightarrow>
      (\<exists>t. (t = s \<or> (\<exists>c. sign c \<and> s = c # t)) \<and> t \<noteq> [] \<and> list_all is_digit t)"
    unfolding regex_test_def intLeadingZeroes_def seq_iff opt_iff cls_iff d by blast
  show ?thesis
  proof (cases s)
    case Nil
    then show ?thesis unfolding m by (simp add: numeral_string_def)
  next
    case (Cons c cs)
    show ?thesis
    proof (cases "sign c")
      case True
      then have "\<not> is_digit c" using n by blast
      then show ?thesis using True Cons unfolding m by (auto simp: numeral_string_def)
    next
      case False
      then show ?thesis using Cons unfolding m by (auto simp: numeral_string_def)
    qed
  qed
qed

lemma digit_char: "n < 10 \<Longrightarrow> is_digit (''0123456789'' ! n) \<and> of_char (''0123456789'' ! n) - 48 = n"
proof -
  assume "n < 10"
  then consider "n = 0" | "n = 1" | "n = 2" | "n = 3" | "n = 4" | "n = 5" | "n = 6" | "n = 7"
    | "n = 8" | "n = 9" by atomize_elim presburger
  then show ?thesis by cases (simp_all add: is_digit_def)
qed

lemma show_nat_digits: "show_nat n \<noteq> [] \<and> list_all is_digit (show_nat n) \<and> digits_value (show_nat n) = n"
proof (induction n rule: show_nat.induct)
  case (1 n)
  show ?case
  proof (cases "n < 10")
    case True
    then show ?thesis using digit_char[of n] by (simp add: show_nat.simps[of n] digits_value_def)
  next
    case False
    have m: "n mod 10 < 10" by simp
    show ?thesis using False 1 digit_char[OF m]
      by (simp add: show_nat.simps[of n] digits_value_def)
  qed
qed

lemma digits_not_sign: "s \<noteq> [] \<Longrightarrow> list_all is_digit s \<Longrightarrow> \<not> sign (hd s)"
  by (cases s) (auto simp: is_digit_def sign_def Let_def)

lemma ToNumber_digits: "s \<noteq> [] \<Longrightarrow> list_all is_digit s \<Longrightarrow> ToNumber s = int (digits_value s)"
  using digits_not_sign[of s] by (cases s) (auto simp: ToNumber_def sign_def)

lemma show_int_numeral: "numeral_string (show_int i) \<and> ToNumber (show_int i) = i"
proof (cases "i < 0")
  case True
  then show ?thesis using show_nat_digits[of "nat (- i)"]
    by (simp add: show_int_def numeral_string_def sign_def ToNumber_def)
next
  case False
  obtain c cs where s: "show_nat (nat i) = c # cs" using show_nat_digits[of "nat i"] by (cases "show_nat (nat i)") auto
  have "\<not> sign c" using digits_not_sign[of "show_nat (nat i)"] show_nat_digits[of "nat i"] s by simp
  then show ?thesis using False show_nat_digits[of "nat i"] ToNumber_digits[of "show_nat (nat i)"] s
    by (simp add: show_int_def numeral_string_def)
qed

lemma numeral_string_chars: "numeral_string s \<Longrightarrow> list_all (\<lambda>c. is_digit c \<or> sign c) s"
  by (cases s) (auto simp: numeral_string_def list_all_iff split: if_splits)

lemma fraction_not_numeral: "r \<noteq> of_int \<lfloor>r\<rfloor> \<Longrightarrow> \<not> numeral_string (Number_toString r)"
proof
  assume a: "r \<noteq> of_int \<lfloor>r\<rfloor>" and n: "numeral_string (Number_toString r)"
  have "CHR ''.'' \<in> set (Number_toString r)" using a by (simp add: Number_toString_def)
  moreover have "\<not> (is_digit CHR ''.'' \<or> sign CHR ''.'')" by (simp add: is_digit_def sign_def)
  ultimately show False using numeral_string_chars[OF n] by (auto simp: list_all_iff)
qed

lemma not_numeral_words:
  "\<not> numeral_string []" "\<not> numeral_string ''true''" "\<not> numeral_string ''false''"
  "\<not> numeral_string ''[object Object]''"
  by (simp_all add: numeral_string_def sign_def is_digit_def)

lemma isInt_toString: "isInt (toString v) lo hi \<longleftrightarrow> integer_in lo hi v"
proof (cases v)
  case (JNum r)
  show ?thesis
  proof (cases "r = of_int \<lfloor>r\<rfloor>")
    case True
    have "Number_toString r = show_int \<lfloor>r\<rfloor>" using True by (simp add: Number_toString_def)
    moreover have "of_int lo \<le> r \<longleftrightarrow> lo \<le> \<lfloor>r\<rfloor>" by (simp add: le_floor_iff)
    moreover have "r \<le> of_int hi \<longleftrightarrow> \<lfloor>r\<rfloor> \<le> hi" using True by (metis of_int_le_iff)
    ultimately show ?thesis using JNum True show_int_numeral[of "\<lfloor>r\<rfloor>"]
      by (simp add: isInt_def integer_in_def intLeadingZeroes_iff)
  next
    case False
    then show ?thesis using JNum fraction_not_numeral[OF False]
      by (simp add: isInt_def integer_in_def intLeadingZeroes_iff)
  qed
qed (simp_all add: isInt_def integer_in_def integer_string_def intLeadingZeroes_iff not_numeral_words)

lemma accepted_values:
  "list_all (integer_in lo hi) (values_of v) \<longleftrightarrow> filter (\<lambda>x. \<not> isInt (toString x) lo hi) (values_of v) = []"
  by (simp add: isInt_toString filter_empty_conv list_all_iff)

lemma validateDomain_Nil:
  "validateDomain b = [] \<longleftrightarrow>
     (\<exists>d. domain b = Some d \<and> regex_test domain_regex d) \<and>
     (case timeout b of None \<Rightarrow> True | Some t \<Rightarrow> list_all (integer_in 30 300) (values_of t)) \<and>
     (case workers b of None \<Rightarrow> True | Some w \<Rightarrow> list_all (integer_in 1 30) (values_of w))"
proof -
  have e: "\<not> regex_test domain_regex []"
    using domain_regex_chars(3)[of "[]"] by blast
  have n: "\<And>d. regex_test domain_regex d \<Longrightarrow> 1 \<le> length d"
    using domain_regex_chars(3) by (metis One_nat_def Suc_leI length_greater_0_conv)
  show ?thesis
    using e n by (auto simp: validateDomain_def Let_def accepted_values split: option.splits)
qed

lemma post_invalid:
  "validateDomain b \<noteq> [] \<Longrightarrow>
   post_reconnaissance e b = \<lparr>response = Some (validation_error (validateDomain b)), effects = []\<rparr>"
  by (simp add: post_reconnaissance_def Let_def)

lemma status_validation_error: "status (validation_error errs) = 400"
  by (simp add: validation_error_def)

lemma domain_errors_iff:
  "list_all (\<lambda>err. path err \<noteq> ''domain'') (validateDomain b) \<longleftrightarrow>
     (\<exists>d. domain b = Some d \<and> regex_test domain_regex d)"
proof -
  have e: "\<not> regex_test domain_regex []"
    using domain_regex_chars(3)[of "[]"] by blast
  have n: "\<And>d. regex_test domain_regex d \<Longrightarrow> 1 \<le> length d"
    using domain_regex_chars(3) by (metis One_nat_def Suc_leI length_greater_0_conv)
  show ?thesis
    using e n by (auto simp: validateDomain_def Let_def list_all_iff split: option.splits)
qed

lemma domain_error_present:
  "\<not> (\<exists>d. domain b = Some d \<and> regex_test domain_regex d) \<Longrightarrow>
   \<lparr>path = ''domain'', msg = ''Invalid domain format''\<rparr> \<in> set (validateDomain b)"
proof -
  have e: "\<not> regex_test domain_regex []"
    using domain_regex_chars(3)[of "[]"] by blast
  assume "\<not> (\<exists>d. domain b = Some d \<and> regex_test domain_regex d)"
  then show ?thesis using e by (auto simp: validateDomain_def Let_def split: option.splits)
qed

lemma www_rejected: "\<not> regex_test domain_regex ''www.example.com''"
  by code_simp

lemma www_errors:
  "validateDomain (example_body\<lparr>domain := Some ''www.example.com''\<rparr>) =
     [\<lparr>path = ''domain'', msg = ''Invalid domain format''\<rparr>]"
  using www_rejected by (simp add: validateDomain_def example_body_def)

lemma example_body_valid: "validateDomain example_body = []"
  using example_domain by (simp add: validateDomain_def example_body_def)

lemma accepted_domain:
  "validateDomain b = [] \<Longrightarrow> domain b = Some d \<Longrightarrow> regex_test domain_regex d"
  by (auto simp: validateDomain_Nil)

lemma post_dir:
  "regex_test domain_regex d \<Longrightarrow> path_join [dirname e, ''results'', d] = results_dir e d"
  unfolding results_dir_def results_root_def by (rule path_join_dir[OF domain_plain])

lemma ensure_ok:
  "dir_ok e d \<Longrightarrow>
   ensureDirectoryExists e (results_dir e d) =
     (if existsSync e (results_dir e d) then [ExistsSync (results_dir e d)]
      else [ExistsSync (results_dir e d), MkdirSync (results_dir e d)], Inr (results_dir e d))"
  by (auto simp: dir_ok_def ensureDirectoryExists_def)

lemma ensure_failed:
  "\<not> dir_ok e d \<Longrightarrow>
   \<exists>m. mkdirSync e (results_dir e d) = Some m \<and>
       ensureDirectoryExists e (results_dir e d) =
         ([ExistsSync (results_dir e d), MkdirSync (results_dir e d)], Inl m)"
  by (auto simp: dir_ok_def ensureDirectoryExists_def)

lemma executeScript_run:
  "executeScript e d (results_dir e d) (timeout b) (workers b) (verbose b) (jsonOnly b) (csvOnly b)
     = (Spawn ''python3'' (run_args e b d) #
          replicate (length (filter is_enoent (first_process e b d))) (Spawn ''python'' (run_args e b d)),
        request_promise e b d)"
  using executeScript_effects[of e d "results_dir e d" "timeout b" "workers b" "verbose b"
      "jsonOnly b" "csvOnly b"]
  unfolding request_promise_def run_args_def first_process_def
  by (simp add: prod_eq_iff)

lemma post_accepted:
  assumes "validateDomain b = []" "domain b = Some d" "dir_ok e d"
  shows "post_reconnaissance e b =
     (case request_promise e b d of
        Pending \<Rightarrow>
          \<lparr>response = None,
           effects = fst (ensureDirectoryExists e (results_dir e d)) @
                     fst (executeScript e d (results_dir e d) (timeout b) (workers b) (verbose b)
                            (jsonOnly b) (csvOnly b))\<rparr>
      | Rejected m \<Rightarrow>
          \<lparr>response = Some (server_error m),
           effects = fst (ensureDirectoryExists e (results_dir e d)) @
                     fst (executeScript e d (results_dir e d) (timeout b) (workers b) (verbose b)
                            (jsonOnly b) (csvOnly b))\<rparr>
      | Resolved r \<Rightarrow>
          \<lparr>response = Some (completed e (snd (results_after_run e (results_dir e d) d r))),
           effects = fst (ensureDirectoryExists e (results_dir e d)) @
                     fst (executeScript e d (results_dir e d) (timeout b) (workers b) (verbose b)
                            (jsonOnly b) (csvOnly b)) @
                     fst (results_after_run e (results_dir e d) d r)\<rparr>)"
proof -
  have v: "regex_test domain_regex d" by (rule accepted_domain[OF assms(1,2)])
  obtain E1 where e1: "ensureDirectoryExists e (results_dir e d) = (E1, Inr (results_dir e d))"
    using ensure_ok[OF assms(3)] by simp
  obtain E2 P where e2: "executeScript e d (results_dir e d) (timeout b) (workers b) (verbose b)
      (jsonOnly b) (csvOnly b) = (E2, P)"
    by (cases "executeScript e d (results_dir e d) (timeout b) (workers b) (verbose b)
      (jsonOnly b) (csvOnly b)") auto
  have p: "request_promise e b d = P" unfolding request_promise_def e2 by simp
  show ?thesis
    by (cases P)
      (simp_all add: post_reconnaissance_def Let_def assms(1,2) post_dir[OF v] p e1 e2
        split: prod.splits)
qed

lemma post_dir_failed:
  assumes "validateDomain b = []" "domain b = Some d" "\<not> dir_ok e d"
  shows "\<exists>m. post_reconnaissance e b =
     \<lparr>response = Some (server_error m),
      effects = [ExistsSync (results_dir e d), MkdirSync (results_dir e d)]\<rparr>"
proof -
  have v: "regex_test domain_regex d" by (rule accepted_domain[OF assms(1,2)])
  obtain m where m: "ensureDirectoryExists e (results_dir e d) =
         ([ExistsSync (results_dir e d), MkdirSync (results_dir e d)], Inl m)"
    using ensure_failed[OF assms(3)] by blast
  show ?thesis
    by (auto simp: post_reconnaissance_def Let_def assms(1,2) post_dir[OF v] m)
qed

lemma results_after_run_no_spawn: "filter is_spawn (fst (results_after_run e dir d r)) = []"
  by (simp add: results_after_run_def readResults_def Let_def is_spawn_def
      split: file_state.splits sum.splits)

lemma ensure_no_spawn: "filter is_spawn (fst (ensureDirectoryExists e p)) = []"
  by (simp add: ensureDirectoryExists_def is_spawn_def split: option.splits)

lemma filter_spawn_replicate:
  "filter is_spawn (Spawn c a # replicate n (Spawn c' a')) = Spawn c a # replicate n (Spawn c' a')"
  by (simp add: is_spawn_def)

lemma post_spawns:
  assumes "validateDomain b = []" "domain b = Some d"
  shows "filter is_spawn (effects (post_reconnaissance e b)) =
     (if dir_ok e d then
        Spawn ''python3'' (run_args e b d) #
        replicate (length (filter is_enoent (first_process e b d))) (Spawn ''python'' (run_args e b d))
      else [])"
proof (cases "dir_ok e d")
  case True
  let ?E1 = "fst (ensureDirectoryExists e (results_dir e d))"
  let ?E2 = "Spawn ''python3'' (run_args e b d) #
        replicate (length (filter is_enoent (first_process e b d))) (Spawn ''python'' (run_args e b d))"
  have f1: "filter is_spawn ?E1 = []" by (rule ensure_no_spawn)
  have f2: "filter is_spawn ?E2 = ?E2" by (rule filter_spawn_replicate)
  have f12: "filter is_spawn (?E1 @ ?E2) = ?E2"
    unfolding filter_append f1 f2 by simp
  have f123: "\<And>r. filter is_spawn (?E1 @ ?E2 @ fst (results_after_run e (results_dir e d) d r)) = ?E2"
    unfolding filter_append f1 f2 results_after_run_no_spawn by simp
  have e2: "fst (executeScript e d (results_dir e d) (timeout b) (workers b) (verbose b)
      (jsonOnly b) (csvOnly b)) = ?E2"
    unfolding executeScript_run by simp
  show ?thesis
  proof (cases "request_promise e b d")
    case Pending
    then have "effects (post_reconnaissance e b) = ?E1 @ ?E2"
      unfolding post_accepted[OF assms True] e2 by simp
    then show ?thesis using f12 True by simp
  next
    case (Resolved r)
    then have "effects (post_reconnaissance e b)
        = ?E1 @ ?E2 @ fst (results_after_run e (results_dir e d) d r)"
      unfolding post_accepted[OF assms True] e2 by simp
    then show ?thesis using f123[of r] True by simp
  next
    case (Rejected m)
    then have "effects (post_reconnaissance e b) = ?E1 @ ?E2"
      unfolding post_accepted[OF assms True] e2 by simp
    then show ?thesis using f12 True by simp
  qed
next
  case False
  obtain m where "post_reconnaissance e b =
     \<lparr>response = Some (server_error m),
      effects = [ExistsSync (results_dir e d), MkdirSync (results_dir e d)]\<rparr>"
    using post_dir_failed[OF assms False] by blast
  then show ?thesis using False by (simp add: is_spawn_def)
qed

lemma script_path_ne: "script_path e \<noteq> []"
  by (simp add: script_path_def path_join_ne split: option.splits)

lemma accepted_truthy:
  assumes "list_all (integer_in lo hi) (values_of v)" "0 < lo"
  shows "truthy (Some v) \<and> v \<noteq> JStr []"
proof (cases v)
  case (JNum r)
  then have "of_int lo \<le> r" using assms(1) by (simp add: values_of_def integer_in_def)
  moreover have "(0::rat) < of_int lo" using assms(2) by simp
  ultimately show ?thesis using JNum by simp
next
  case (JStr s)
  then have "numeral_string s" using assms(1)
    by (simp add: values_of_def integer_in_def integer_string_def)
  then show ?thesis using JStr by (auto simp: numeral_string_def)
qed (use assms in \<open>simp_all add: values_of_def integer_in_def\<close>)

lemma js_or_accepted:
  assumes "case v of None \<Rightarrow> True | Some t \<Rightarrow> list_all (integer_in lo hi) (values_of t)" "0 < lo"
  shows "js_or v dflt = (case v of None \<Rightarrow> dflt | Some t \<Rightarrow> t) \<and> (\<forall>t. v = Some t \<longrightarrow> t \<noteq> JStr [])"
proof (cases v)
  case None
  then show ?thesis by (simp add: js_or_def)
next
  case (Some t)
  then show ?thesis using assms accepted_truthy[where lo = lo and hi = hi and v = t] by (simp add: js_or_def)
qed

lemma run_args_accepted:
  assumes "validateDomain b = []" "domain b = Some d"
  shows "run_args e b d =
     [JStr (script_path e), JStr d, JStr ''--output-dir'', JStr (results_dir e d),
      JStr ''--timeout'', (case timeout b of None \<Rightarrow> JNum 300 | Some t \<Rightarrow> t),
      JStr ''--workers'', (case workers b of None \<Rightarrow> JNum 20 | Some w \<Rightarrow> w)] @
     (if truthy (verbose b) then [JStr ''--verbose''] else []) @
     (if truthy (jsonOnly b) then [JStr ''--json-only''] else []) @
     (if truthy (csvOnly b) then [JStr ''--csv-only''] else [])"
proof -
  have v: "regex_test domain_regex d" by (rule accepted_domain[OF assms])
  have d: "d \<noteq> []" by (rule domain_regex_chars(3)[OF v])
  have dir: "results_dir e d \<noteq> []" by (simp add: results_dir_def)
  have t: "js_or (timeout b) (JNum 300) = (case timeout b of None \<Rightarrow> JNum 300 | Some t \<Rightarrow> t)"
    "(case timeout b of None \<Rightarrow> JNum 300 | Some t \<Rightarrow> t) \<noteq> JStr []"
    using assms(1) js_or_accepted[where v = "timeout b" and lo = 30 and hi = 300 and dflt = "JNum 300"]
    by (auto simp: validateDomain_Nil split: option.splits)
  have w: "js_or (workers b) (JNum 20) = (case workers b of None \<Rightarrow> JNum 20 | Some w \<Rightarrow> w)"
    "(case workers b of None \<Rightarrow> JNum 20 | Some w \<Rightarrow> w) \<noteq> JStr []"
    using assms(1) js_or_accepted[where v = "workers b" and lo = 1 and hi = 30 and dflt = "JNum 20"]
    by (auto simp: validateDomain_Nil split: option.splits)
  show ?thesis
    unfolding run_args_def script_args_def t(1) w(1)
    using d dir script_path_ne[of e] t(2) w(2) by simp
qed

lemma example_script_path: "script_path example_env = ''/srv/scripts/main.py''"
proof -
  have "path_join [''/srv/server'', ''../scripts/main.py''] = ''/srv/scripts/main.py''"
    by code_simp
  then show ?thesis by (simp add: script_path_def example_env_def)
qed

lemma example_dir_ok: "dir_ok example_env d"
  by (simp add: dir_ok_def example_env_def)

lemma report_path:
  assumes "regex_test domain_regex d"
  shows "path_join [results_dir e d, d @ ''_reconnaissance_report.json''] = results_path e d ''json''"
proof -
  have "results_filename d ''json'' = d @ ''_reconnaissance_report.json''"
    by (simp add: results_filename_def)
  then show ?thesis
    using readResults_path[OF assms, of e "''json''"] post_dir[OF assms, of e] by simp
qed

lemma results_after_run_valid:
  assumes "regex_test domain_regex d"
  shows "snd (results_after_run e (results_dir e d) d r) =
     (case file_report e d of Inr j \<Rightarrow> j | Inl m \<Rightarrow> from_output e d r m)"
proof -
  have rr: "readResults e (results_dir e d) d ''json'' =
     ([ReadFileSync (results_path e d ''json'')],
      (case files e (results_path e d ''json'') of
         File data \<Rightarrow>
           (case JSON_parse e data of
              Inr j \<Rightarrow> Inr j
            | Inl m \<Rightarrow> Inl (''Failed to read results file: '' @ m))
       | Missing m \<Rightarrow> Inl (''Failed to read results file: '' @ m)
       | Unreadable m \<Rightarrow> Inl (''Failed to read results file: '' @ m)))"
    using readResults_valid[OF assms, of e "''json''"] post_dir[OF assms, of e]
    by (simp split: file_state.splits)
  show ?thesis
    unfolding results_after_run_def Let_def report_path[OF assms] rr file_report_def
    by (simp split: file_state.splits sum.splits)
qed

lemma post_resolved:
  assumes "validateDomain b = []" "domain b = Some d" "dir_ok e d"
    and "request_promise e b d = Resolved r"
  shows "response (post_reconnaissance e b) =
     Some (completed e (case file_report e d of Inr j \<Rightarrow> j | Inl m \<Rightarrow> from_output e d r m))"
  unfolding post_accepted[OF assms(1-3)] assms(4)
  using results_after_run_valid[OF accepted_domain[OF assms(1,2)], of e r] by simp

lemma post_rejected:
  assumes "validateDomain b = []" "domain b = Some d" "dir_ok e d"
    and "request_promise e b d = Rejected m"
  shows "response (post_reconnaissance e b) = Some (server_error m)"
  unfolding post_accepted[OF assms(1-3)] assms(4) by simp

lemma promise_close:
  assumes "first_process e b d = pre @ Close code # rest" "list_all is_data pre"
  shows "request_promise e b d =
     (if code = Some 0 then
        Resolved \<lparr>success = True, message = ''Reconnaissance completed successfully'',
                  script_output = stdout_of pre\<rparr>
      else
        Rejected (''Script exited with code '' @ show_code code @ [CHR 0x0A] @
                  ''STDOUT: '' @ stdout_of pre @ [CHR 0x0A] @ ''STDERR: '' @ stderr_of pre))"
  unfolding request_promise_def
  by (rule run_close[OF assms[unfolded first_process_def run_args_def]])

lemma promise_error:
  assumes "first_process e b d = pre @ ErrorEv c m # rest" "list_all is_data pre"
  shows "request_promise e b d = Rejected (''Error executing script: '' @ m)"
  unfolding request_promise_def
  by (rule run_error[OF assms[unfolded first_process_def run_args_def]])

lemma status_completed: "status (completed e x) = 200"
  by (simp add: completed_def)

lemma status_server_error: "status (server_error m) = 500"
  by (simp add: server_error_def)

lemma completed_inject: "completed e x = completed e y \<Longrightarrow> x = y"
  by (simp add: completed_def)

lemma completed_not_error: "completed e x \<noteq> server_error m"
  by (simp add: completed_def server_error_def)

lemma completed_not_validation: "completed e x \<noteq> validation_error errs"
  by (simp add: completed_def validation_error_def)

lemma relayed_or_synthesized:
  "(case file_report e d of Inr j \<Rightarrow> j | Inl m \<Rightarrow> from_output e d r m) = x \<Longrightarrow>
   (\<exists>m. x = synthesized_report e d m) \<or> (\<exists>s. JSON_parse e s = Inr x)"
  by (auto simp: file_report_def from_output_def split: file_state.splits sum.splits)

lemma post_completed:
  assumes "validateDomain b = []" "domain b = Some d"
    and "response (post_reconnaissance e b) = Some (completed e x)"
  shows "(\<exists>m. x = synthesized_report e d m) \<or> (\<exists>s. JSON_parse e s = Inr x)"
proof (cases "dir_ok e d")
  case True
  show ?thesis
  proof (cases "request_promise e b d")
    case Pending
    then show ?thesis using assms(3) unfolding post_accepted[OF assms(1,2) True] by simp
  next
    case (Resolved r)
    have "response (post_reconnaissance e b) =
        Some (completed e (case file_report e d of Inr j \<Rightarrow> j | Inl m \<Rightarrow> from_output e d r m))"
      by (rule post_resolved[OF assms(1,2) True Resolved])
    then have "completed e (case file_report e d of Inr j \<Rightarrow> j | Inl m \<Rightarrow> from_output e d r m)
        = completed e x"
      using assms(3) by simp
    then have "(case file_report e d of Inr j \<Rightarrow> j | Inl m \<Rightarrow> from_output e d r m) = x"
      by (rule completed_inject)
    then show ?thesis by (rule relayed_or_synthesized)
  next
    case (Rejected m)
    then show ?thesis
      using assms(3) post_rejected[OF assms(1,2) True Rejected] completed_not_error[of e x m]
      by simp
  qed
next
  case False
  obtain m where "post_reconnaissance e b =
     \<lparr>response = Some (server_error m),
      effects = [ExistsSync (results_dir e d), MkdirSync (results_dir e d)]\<rparr>"
    using post_dir_failed[OF assms(1,2) False] by blast
  then show ?thesis using assms(3) completed_not_error[of e x m] by simp
qed

lemma show_code_examples:
  "show_code (Some 1) = ''1''" "show_code (Some (- 13)) = ''-13''" "show_code None = ''null''"
  by (simp_all add: show_code_def show_nat.simps)

lemma enoent_spawns_python:
  assumes "validateDomain b = []" "domain b = Some d" "dir_ok e d"
    and "first_process e b d = pre @ ErrorEv ''ENOENT'' m # rest"
  shows "Spawn ''python'' (run_args e b d) \<in> set (effects (post_reconnaissance e b))"
proof -
  have "0 < length (filter is_enoent (first_process e b d))"
    unfolding assms(4) by (simp add: is_enoent_def)
  then have "Spawn ''python'' (run_args e b d) \<in>
      set (replicate (length (filter is_enoent (first_process e b d))) (Spawn ''python'' (run_args e b d)))"
    by simp
  then have "Spawn ''python'' (run_args e b d) \<in> set (filter is_spawn (effects (post_reconnaissance e b)))"
    unfolding post_spawns[OF assms(1,2)] using assms(3) by simp
  then show ?thesis by simp
qed

lemma dir_ok_spawn: "dir_ok (e\<lparr>spawn := f\<rparr>) d = dir_ok e d"
  by (simp add: dir_ok_def results_dir_def results_root_def)

subsection \<open>A run that exits with code 0\<close>

text \<open>
  The path without fallback: when the first process (\<open>python3\<close>) exits with code 0
  after emitting only output, the handler of an accepted request answers with HTTP 200,
  \<open>success: true\<close> and a results object: the report file parsed when it can be accessed,
  read and parsed; otherwise the output of the script parsed as JSON; otherwise the
  synthesized report, whose \<open>errors\<close> carries the file error.
\<close>

lemma post_exit_zero:
  "validateDomain b = [] \<Longrightarrow> domain b = Some d \<Longrightarrow> dir_ok e d \<Longrightarrow>
   first_process e b d = pre @ Close (Some 0) # rest \<Longrightarrow> list_all is_data pre \<Longrightarrow>
   response (post_reconnaissance e b) =
     Some (completed e
       (case files e (results_path e d ''json'') of
          File data \<Rightarrow>
            (case JSON_parse e data of
               Inr j \<Rightarrow> j
             | Inl m \<Rightarrow>
                 (case JSON_parse e (stdout_of pre) of
                    Inr j \<Rightarrow> j
                  | Inl m' \<Rightarrow> synthesized_report e d (''Failed to read results file: '' @ m)))
        | Missing m \<Rightarrow>
            (case JSON_parse e (stdout_of pre) of
               Inr j \<Rightarrow> j
             | Inl m' \<Rightarrow> synthesized_report e d m)
        | Unreadable m \<Rightarrow>
            (case JSON_parse e (stdout_of pre) of
               Inr j \<Rightarrow> j
             | Inl m' \<Rightarrow> synthesized_report e d (''Failed to read results file: '' @ m))))
   \<and> status (completed e x) = 200
   \<and> body (completed e x) =
       Json (JObj [(''success'', JBool True),
                   (''message'', JStr ''Reconnaissance completed successfully''),
                   (''executionTime'', JNum (of_int (endTime e - startTime e) / 1000)),
                   (''results'', x)])
   \<and> field ''errors'' (synthesized_report e d m0) =
       Some (JArr [JStr (''Failed to create results file: '' @ m0)])"
proof -
  assume a: "validateDomain b = []" "domain b = Some d" "dir_ok e d"
    and t: "first_process e b d = pre @ Close (Some 0) # rest" "list_all is_data pre"
  let ?r = "\<lparr>success = True, message = ''Reconnaissance completed successfully'',
             script_output = stdout_of pre\<rparr>"
  have p: "request_promise e b d = Resolved ?r"
    using promise_close[OF t] by simp
  have "response (post_reconnaissance e b) =
     Some (completed e (case file_report e d of Inr j \<Rightarrow> j | Inl m \<Rightarrow> from_output e d ?r m))"
    by (rule post_resolved[OF a p])
  then have "response (post_reconnaissance e b) =
     Some (completed e
       (case files e (results_path e d ''json'') of
          File data \<Rightarrow>
            (case JSON_parse e data of
               Inr j \<Rightarrow> j
             | Inl m \<Rightarrow>
                 (case JSON_parse e (stdout_of pre) of
                    Inr j \<Rightarrow> j
                  | Inl m' \<Rightarrow> synthesized_report e d (''Failed to read results file: '' @ m)))
        | Missing m \<Rightarrow>
            (case JSON_parse e (stdout_of pre) of
               Inr j \<Rightarrow> j
             | Inl m' \<Rightarrow> synthesized_report e d m)
        | Unreadable m \<Rightarrow>
            (case JSON_parse e (stdout_of pre) of
               Inr j \<Rightarrow> j
             | Inl m' \<Rightarrow> synthesized_report e d (''Failed to read results file: '' @ m))))"
    by (simp add: file_report_def from_output_def split: file_state.splits sum.splits)
  then show ?thesis
    by (simp add: completed_def synthesized_report_def)
qed






lemma get_results_files:
  assumes "p \<noteq> results_path e d (query_format fmt)"
  shows "get_results (e\<lparr>files := (files e)(p := s)\<rparr>) d fmt = get_results e d fmt"
proof (cases "regex_test domain_regex d")
  case True
  have r: "results_path (e\<lparr>files := (files e)(p := s)\<rparr>) d f = results_path e d f" for f
    by (simp add: results_path_def results_root_def)
  show ?thesis
    unfolding get_results_def Let_def readResults_valid[OF True] r
    using assms by (simp add: results_json_def split: file_state.splits sum.splits)
next
  case False
  then show ?thesis by (simp add: get_results_def)
qed

lemma get_download_files:
  assumes "p \<noteq> results_path e d (query_format fmt)"
  shows "get_download (e\<lparr>files := (files e)(p := s), download := (download e)(p := t)\<rparr>) d fmt =
         get_download e d fmt"
proof (cases "regex_test domain_regex d")
  case True
  have r: "results_path (e\<lparr>files := (files e)(p := s), download := (download e)(p := t)\<rparr>) d f =
      results_path e d f" for f
    by (simp add: results_path_def results_root_def)
  show ?thesis
    unfolding get_download_valid[OF True] r
    using assms by (simp add: accessible_def)
next
  case False
  then show ?thesis by (simp add: get_download_def)
qed

lemma results_path_prefix: "prefix (results_root e @ ''/'') (results_path e d f)"
  by (simp add: results_path_def)



section \<open>The claims\<close>

text \<open>
  C1. A request whose process exits with code 0 is answered with \<open>success: true\<close> and
  a results object when that process is the first one (\<open>python3\<close>, lemma
  \<open>post_exit_zero\<close>); in the example below the script prints an empty object and no
  report file exists, so the results are that object. The same script run by the fallback
  process (\<open>python\<close>, after \<open>python3\<close> failed with ENOENT) exits with code 0 as well,
  and the request is answered with HTTP 500.
\<close>

theorem fallback_exit_zero_gets_500:
  "spawn example_env ''python3'' (run_args example_env example_body ''example.com'') =
     [StdoutData ''{}'', Close (Some 0)]
   \<and> response (post_reconnaissance example_env example_body) =
       Some (completed example_env (JObj []))
   \<and> spawn env_enoent ''python3'' (run_args env_enoent example_body ''example.com'') =
       [ErrorEv ''ENOENT'' ''spawn python3 ENOENT'', Close (Some (- 2))]
   \<and> spawn env_enoent ''python'' (run_args env_enoent example_body ''example.com'') =
       [StdoutData ''{}'', Close (Some 0)]
   \<and> filter is_spawn (effects (post_reconnaissance env_enoent example_body)) =
       [Spawn ''python3'' (run_args env_enoent example_body ''example.com''),
        Spawn ''python'' (run_args env_enoent example_body ''example.com'')]
   \<and> response (post_reconnaissance env_enoent example_body) =
       Some (server_error ''Error executing script: spawn python3 ENOENT'')
   \<and> status (server_error ''Error executing script: spawn python3 ENOENT'') = 500"
proof -
  have d: "domain example_body = Some ''example.com''" by (simp add: example_body_def)
  have t1: "first_process example_env example_body ''example.com'' =
       [StdoutData ''{}''] @ Close (Some 0) # []"
    by (simp add: first_process_def example_env_def)
  have i1: "list_all is_data [StdoutData ''{}'']" by (simp add: is_data_def)
  have 1: "response (post_reconnaissance example_env example_body) =
       Some (completed example_env (JObj []))"
    using post_exit_zero[OF example_body_valid d example_dir_ok t1 i1]
    by (simp add: example_env_def stdout_of_def)
  have k: "dir_ok env_enoent ''example.com''"
    unfolding env_enoent_def dir_ok_spawn by (rule example_dir_ok)
  have t2: "first_process env_enoent example_body ''example.com'' =
       [] @ ErrorEv ''ENOENT'' ''spawn python3 ENOENT'' # [Close (Some (- 2))]"
    by (simp add: first_process_def env_enoent_def)
  have r: "request_promise env_enoent example_body ''example.com'' =
      Rejected (''Error executing script: '' @ ''spawn python3 ENOENT'')"
    by (rule promise_error[OF t2]) simp
  have 2: "response (post_reconnaissance env_enoent example_body) =
       Some (server_error (''Error executing script: '' @ ''spawn python3 ENOENT''))"
    by (rule post_rejected[OF example_body_valid d k r])
  have 3: "filter is_spawn (effects (post_reconnaissance env_enoent example_body)) =
       [Spawn ''python3'' (run_args env_enoent example_body ''example.com''),
        Spawn ''python'' (run_args env_enoent example_body ''example.com'')]"
    unfolding post_spawns[OF example_body_valid d] t2 using k by (simp add: is_enoent_def)
  have s: "spawn example_env ''python3'' (run_args example_env example_body ''example.com'') =
     [StdoutData ''{}'', Close (Some 0)]"
    "spawn env_enoent ''python3'' (run_args env_enoent example_body ''example.com'') =
       [ErrorEv ''ENOENT'' ''spawn python3 ENOENT'', Close (Some (- 2))]"
    "spawn env_enoent ''python'' (run_args env_enoent example_body ''example.com'') =
       [StdoutData ''{}'', Close (Some 0)]"
    by (simp_all add: example_env_def env_enoent_def)
  show ?thesis using 1 2 3 s status_server_error by simp
qed

text \<open>
  C2, as the code has it. For an accepted request whose first process (\<open>python3\<close>) emits
  only output and then closes: the promise resolves with \<open>success: true\<close> and the
  response is HTTP 200 if the exit code is 0, and otherwise (another code, or \<open>null\<close>) the
  promise is rejected and the response is HTTP 500 with the message
  \<open>Script exited with code <code>\<close>, \<open>STDOUT: <stdout>\<close>, \<open>STDERR: <stderr>\<close> on three
  lines. When the first process instead emits an error other than ENOENT, the promise is
  rejected and the response is HTTP 500 with the message \<open>Error executing script: \<close>
  followed by the message of the error, which carries neither an exit code nor the
  captured output.
\<close>

theorem exit_code_decides_outcome:
  "validateDomain b = [] \<Longrightarrow> domain b = Some d \<Longrightarrow> dir_ok e d \<Longrightarrow> list_all is_data pre \<Longrightarrow>
   (first_process e b d = pre @ Close code # rest \<longrightarrow>
      (if code = Some 0 then
         request_promise e b d =
           Resolved \<lparr>success = True, message = ''Reconnaissance completed successfully'',
                     script_output = stdout_of pre\<rparr> \<and>
         (\<exists>x. response (post_reconnaissance e b) = Some (completed e x))
       else
         request_promise e b d =
           Rejected (''Script exited with code '' @ show_code code @ [CHR 0x0A] @
                     ''STDOUT: '' @ stdout_of pre @ [CHR 0x0A] @ ''STDERR: '' @ stderr_of pre) \<and>
         response (post_reconnaissance e b) =
           Some (server_error
                  (''Script exited with code '' @ show_code code @ [CHR 0x0A] @
                   ''STDOUT: '' @ stdout_of pre @ [CHR 0x0A] @ ''STDERR: '' @ stderr_of pre))))
   \<and> (first_process e b d = pre @ ErrorEv c m # rest \<and> c \<noteq> ''ENOENT'' \<longrightarrow>
        request_promise e b d = Rejected (''Error executing script: '' @ m) \<and>
        response (post_reconnaissance e b) =
          Some (server_error (''Error executing script: '' @ m)))
   \<and> status (server_error m') = 500 \<and> status (completed e x') = 200
   \<and> body (server_error m') =
       Json (JObj [(''success'', JBool False), (''message'', JStr ''Internal server error''),
                   (''error'', JStr m'),
                   (''details'', JStr ''No additional details available'')])"
proof -
  assume a: "validateDomain b = []" "domain b = Some d" "dir_ok e d" and i: "list_all is_data pre"
  have 1: "first_process e b d = pre @ Close code # rest \<longrightarrow>
      (if code = Some 0 then
         request_promise e b d =
           Resolved \<lparr>success = True, message = ''Reconnaissance completed successfully'',
                     script_output = stdout_of pre\<rparr> \<and>
         (\<exists>x. response (post_reconnaissance e b) = Some (completed e x))
       else
         request_promise e b d =
           Rejected (''Script exited with code '' @ show_code code @ [CHR 0x0A] @
                     ''STDOUT: '' @ stdout_of pre @ [CHR 0x0A] @ ''STDERR: '' @ stderr_of pre) \<and>
         response (post_reconnaissance e b) =
           Some (server_error
                  (''Script exited with code '' @ show_code code @ [CHR 0x0A] @
                   ''STDOUT: '' @ stdout_of pre @ [CHR 0x0A] @ ''STDERR: '' @ stderr_of pre)))"
  proof
    assume t: "first_process e b d = pre @ Close code # rest"
    note p = promise_close[OF t i]
    show "if code = Some 0 then
         request_promise e b d =
           Resolved \<lparr>success = True, message = ''Reconnaissance completed successfully'',
                     script_output = stdout_of pre\<rparr> \<and>
         (\<exists>x. response (post_reconnaissance e b) = Some (completed e x))
       else
         request_promise e b d =
           Rejected (''Script exited with code '' @ show_code code @ [CHR 0x0A] @
                     ''STDOUT: '' @ stdout_of pre @ [CHR 0x0A] @ ''STDERR: '' @ stderr_of pre) \<and>
         response (post_reconnaissance e b) =
           Some (server_error
                  (''Script exited with code '' @ show_code code @ [CHR 0x0A] @
                   ''STDOUT: '' @ stdout_of pre @ [CHR 0x0A] @ ''STDERR: '' @ stderr_of pre))"
    proof (cases "code = Some 0")
      case True
      then have r: "request_promise e b d =
           Resolved \<lparr>success = True, message = ''Reconnaissance completed successfully'',
                     script_output = stdout_of pre\<rparr>"
        using p by simp
      then show ?thesis using True post_resolved[OF a r] by auto
    next
      case False
      then have r: "request_promise e b d =
           Rejected (''Script exited with code '' @ show_code code @ [CHR 0x0A] @
                     ''STDOUT: '' @ stdout_of pre @ [CHR 0x0A] @ ''STDERR: '' @ stderr_of pre)"
        using p by simp
      then show ?thesis using False post_rejected[OF a r] by simp
    qed
  qed
  have 2: "first_process e b d = pre @ ErrorEv c m # rest \<and> c \<noteq> ''ENOENT'' \<longrightarrow>
        request_promise e b d = Rejected (''Error executing script: '' @ m) \<and>
        response (post_reconnaissance e b) =
          Some (server_error (''Error executing script: '' @ m))"
  proof
    assume "first_process e b d = pre @ ErrorEv c m # rest \<and> c \<noteq> ''ENOENT''"
    then have t: "first_process e b d = pre @ ErrorEv c m # rest" by simp
    note r = promise_error[OF t i]
    show "request_promise e b d = Rejected (''Error executing script: '' @ m) \<and>
        response (post_reconnaissance e b) =
          Some (server_error (''Error executing script: '' @ m))"
      using r post_rejected[OF a r] by simp
  qed
  show ?thesis using 1 2 by (simp add: server_error_def completed_def)
qed

theorem exit_code_decides_outcome_witness:
  "validateDomain example_body = []
   \<and> first_process env_exit1 example_body ''example.com'' =
       [StdoutData ''out'', StderrData ''boom''] @ Close (Some 1) # []
   \<and> response (post_reconnaissance env_exit1 example_body) =
       Some (server_error (''Script exited with code 1'' @ [CHR 0x0A] @ ''STDOUT: out'' @
                           [CHR 0x0A] @ ''STDERR: boom''))
   \<and> first_process env_eacces example_body ''example.com'' =
       [] @ ErrorEv ''EACCES'' ''spawn python3 EACCES'' # [Close (Some (- 13))]
   \<and> response (post_reconnaissance env_eacces example_body) =
       Some (server_error ''Error executing script: spawn python3 EACCES'')
   \<and> (\<exists>x. response (post_reconnaissance example_env example_body) = Some (completed example_env x))"
proof -
  have d: "domain example_body = Some ''example.com''" by (simp add: example_body_def)
  have k1: "dir_ok env_exit1 ''example.com''"
    unfolding env_exit1_def dir_ok_spawn by (rule example_dir_ok)
  have k2: "dir_ok env_eacces ''example.com''"
    unfolding env_eacces_def dir_ok_spawn by (rule example_dir_ok)
  have t1: "first_process env_exit1 example_body ''example.com'' =
       [StdoutData ''out'', StderrData ''boom''] @ Close (Some 1) # []"
    by (simp add: first_process_def env_exit1_def)
  have t2: "first_process env_eacces example_body ''example.com'' =
       [] @ ErrorEv ''EACCES'' ''spawn python3 EACCES'' # [Close (Some (- 13))]"
    by (simp add: first_process_def env_eacces_def)
  have t3: "first_process example_env example_body ''example.com'' =
       [StdoutData ''{}''] @ Close (Some 0) # []"
    by (simp add: first_process_def example_env_def)
  have i1: "list_all is_data [StdoutData ''out'', StderrData ''boom'']" by (simp add: is_data_def)
  have i2: "list_all is_data []" by simp
  have i3: "list_all is_data [StdoutData ''{}'']" by (simp add: is_data_def)
  have c: "''EACCES'' \<noteq> ''ENOENT''" by simp
  show ?thesis
    using exit_code_decides_outcome[OF example_body_valid d k1 i1,
        where code = "Some 1" and rest = "[]"]
      exit_code_decides_outcome[OF example_body_valid d k2 i2,
        where c = "''EACCES''" and m = "''spawn python3 EACCES''"
          and rest = "[Close (Some (- 13))]"]
      exit_code_decides_outcome[OF example_body_valid d example_dir_ok i3,
        where code = "Some 0" and rest = "[]"]
      example_body_valid t1 t2 t3 c show_code_examples(1)
    by (simp add: stdout_of_def stderr_of_def)
qed

text \<open>
  C2, as the claim states it, fails for a spawn error other than ENOENT: when \<open>python3\<close>
  cannot be executed (EACCES), the response is HTTP 500 with the message
  \<open>Error executing script: spawn python3 EACCES\<close>, which does not include the exit code
  (-13) the process closes with.
\<close>

theorem spawn_error_message_counterexample:
  "validateDomain example_body = []
   \<and> first_process env_eacces example_body ''example.com'' =
       [ErrorEv ''EACCES'' ''spawn python3 EACCES'', Close (Some (- 13))]
   \<and> response (post_reconnaissance env_eacces example_body) =
       Some (server_error ''Error executing script: spawn python3 EACCES'')
   \<and> status (server_error ''Error executing script: spawn python3 EACCES'') = 500
   \<and> \<not> sublist (show_code (Some (- 13))) ''Error executing script: spawn python3 EACCES''
   \<and> \<not> sublist ''STDOUT'' ''Error executing script: spawn python3 EACCES''"
proof -
  have d: "domain example_body = Some ''example.com''" by (simp add: example_body_def)
  have k: "dir_ok env_eacces ''example.com''"
    unfolding env_eacces_def dir_ok_spawn by (rule example_dir_ok)
  have t: "first_process env_eacces example_body ''example.com'' =
       [] @ ErrorEv ''EACCES'' ''spawn python3 EACCES'' # [Close (Some (- 13))]"
    by (simp add: first_process_def env_eacces_def)
  have r: "request_promise env_eacces example_body ''example.com'' =
      Rejected (''Error executing script: '' @ ''spawn python3 EACCES'')"
    by (rule promise_error[OF t]) simp
  have p: "response (post_reconnaissance env_eacces example_body) =
       Some (server_error (''Error executing script: '' @ ''spawn python3 EACCES''))"
    by (rule post_rejected[OF example_body_valid d k r])
  have s1: "\<not> sublist ''-13'' ''Error executing script: spawn python3 EACCES''" by code_simp
  have s2: "\<not> sublist ''STDOUT'' ''Error executing script: spawn python3 EACCES''" by code_simp
  show ?thesis
    using example_body_valid t p s1 s2 show_code_examples(2) status_server_error by simp
qed




text \<open>
  C4, as the code has it. The domain of a request is accepted exactly when it is a single
  label (1 to 63 letters, digits and hyphens, starting with a letter or digit, and ending
  with one if it is 63 long), one dot and at least two letters. Any other domain, and a
  request without one, fails the validation with ``Invalid domain format'' and is
  answered with HTTP 400 without any effect: no directory is made and no process is
  spawned.
\<close>

theorem domain_validation:
  "(list_all (\<lambda>err. path err \<noteq> ''domain'') (validateDomain b) \<longleftrightarrow>
      (\<exists>d. domain b = Some d \<and> single_label_domain d))
   \<and> (\<not> (\<exists>d. domain b = Some d \<and> single_label_domain d) \<longrightarrow>
        \<lparr>path = ''domain'', msg = ''Invalid domain format''\<rparr> \<in> set (validateDomain b) \<and>
        post_reconnaissance e b =
          \<lparr>response = Some (validation_error (validateDomain b)), effects = []\<rparr> \<and>
        status (validation_error (validateDomain b)) = 400)"
proof (intro conjI impI)
  show "list_all (\<lambda>err. path err \<noteq> ''domain'') (validateDomain b) \<longleftrightarrow>
      (\<exists>d. domain b = Some d \<and> single_label_domain d)"
    unfolding domain_errors_iff domain_regex_shape ..
next
  assume a: "\<not> (\<exists>d. domain b = Some d \<and> single_label_domain d)"
  then have r: "\<not> (\<exists>d. domain b = Some d \<and> regex_test domain_regex d)"
    unfolding domain_regex_shape .
  show m: "\<lparr>path = ''domain'', msg = ''Invalid domain format''\<rparr> \<in> set (validateDomain b)"
    by (rule domain_error_present[OF r])
  then have "validateDomain b \<noteq> []" by auto
  then show "post_reconnaissance e b =
          \<lparr>response = Some (validation_error (validateDomain b)), effects = []\<rparr>"
    by (rule post_invalid)
  show "status (validation_error (validateDomain b)) = 400"
    by (rule status_validation_error)
qed

theorem domain_validation_witness:
  "single_label_domain ''example.com''
   \<and> validateDomain example_body = []
   \<and> \<not> single_label_domain ''www.example.com''
   \<and> post_reconnaissance example_env (example_body\<lparr>domain := Some ''www.example.com''\<rparr>) =
       \<lparr>response = Some (validation_error
          [\<lparr>path = ''domain'', msg = ''Invalid domain format''\<rparr>]), effects = []\<rparr>"
proof -
  have 1: "single_label_domain ''example.com''"
    using example_domain unfolding domain_regex_shape .
  have 2: "\<not> single_label_domain ''www.example.com''"
    using www_rejected unfolding domain_regex_shape .
  have 3: "domain (example_body\<lparr>domain := Some ''www.example.com''\<rparr>) = Some ''www.example.com''"
    by simp
  show ?thesis
    using domain_validation[of "example_body\<lparr>domain := Some ''www.example.com''\<rparr>" example_env]
      1 2 3 www_errors example_body_valid
    by simp
qed

text \<open>
  C4, as the claim states it, fails in both directions: \<open>www.example.com\<close> is a sequence of
  DNS labels ending in a public-suffix-like label and is rejected with HTTP 400, and
  \<open>a-.com\<close>, whose first label ends with a hyphen, is accepted.
\<close>

theorem dns_label_sequence_counterexample:
  "dns_label_sequence ''www.example.com''
   \<and> post_reconnaissance example_env (example_body\<lparr>domain := Some ''www.example.com''\<rparr>) =
       \<lparr>response = Some (validation_error
          [\<lparr>path = ''domain'', msg = ''Invalid domain format''\<rparr>]), effects = []\<rparr>
   \<and> status (validation_error [\<lparr>path = ''domain'', msg = ''Invalid domain format''\<rparr>]) = 400
   \<and> \<not> dns_label_sequence ''a-.com''
   \<and> validateDomain (example_body\<lparr>domain := Some ''a-.com''\<rparr>) = []"
proof -
  have 1: "dns_label_sequence ''www.example.com''" by code_simp
  have 2: "\<not> dns_label_sequence ''a-.com''" by code_simp
  have 3: "regex_test domain_regex ''a-.com''" by code_simp
  have 4: "validateDomain (example_body\<lparr>domain := Some ''a-.com''\<rparr>) = []"
    using 3 by (simp add: validateDomain_def example_body_def)
  have "validateDomain (example_body\<lparr>domain := Some ''www.example.com''\<rparr>) \<noteq> []"
    using www_errors by simp
  then have 5: "post_reconnaissance example_env (example_body\<lparr>domain := Some ''www.example.com''\<rparr>) =
       \<lparr>response = Some (validation_error
          [\<lparr>path = ''domain'', msg = ''Invalid domain format''\<rparr>]), effects = []\<rparr>"
    using post_invalid[of "example_body\<lparr>domain := Some ''www.example.com''\<rparr>" example_env]
      www_errors by simp
  show ?thesis using 1 2 4 5 status_validation_error by simp
qed

text \<open>
  C5. When the first process fails to spawn with ENOENT, \<open>python\<close> is spawned with the same
  arguments, but the promise is already rejected by the \<open>error\<close> listener that
  \<open>handlePythonProcess\<close> put on the first process: whatever the fallback process does,
  an exit with code 0 included, the response is HTTP 500 with the message of the first
  error.
\<close>

theorem fallback_result_discarded:
  "validateDomain b = [] \<Longrightarrow> domain b = Some d \<Longrightarrow> dir_ok e d \<Longrightarrow> list_all is_data pre \<Longrightarrow>
   first_process e b d = pre @ ErrorEv ''ENOENT'' m # rest \<Longrightarrow>
   Spawn ''python'' (run_args e b d) \<in> set (effects (post_reconnaissance e b))
   \<and> request_promise e b d = Rejected (''Error executing script: '' @ m)
   \<and> response (post_reconnaissance e b) = Some (server_error (''Error executing script: '' @ m))
   \<and> status (server_error (''Error executing script: '' @ m)) = 500"
proof -
  assume a: "validateDomain b = []" "domain b = Some d" "dir_ok e d" and i: "list_all is_data pre"
    and t: "first_process e b d = pre @ ErrorEv ''ENOENT'' m # rest"
  note r = promise_error[OF t i]
  show ?thesis
    using enoent_spawns_python[OF a t] r post_rejected[OF a r] status_server_error by simp
qed

theorem fallback_result_discarded_witness:
  "validateDomain example_body = []
   \<and> spawn env_enoent ''python3'' (run_args env_enoent example_body ''example.com'') =
       [ErrorEv ''ENOENT'' ''spawn python3 ENOENT'', Close (Some (- 2))]
   \<and> spawn env_enoent ''python'' (run_args env_enoent example_body ''example.com'') =
       [StdoutData ''{}'', Close (Some 0)]
   \<and> Spawn ''python'' (run_args env_enoent example_body ''example.com'')
       \<in> set (effects (post_reconnaissance env_enoent example_body))
   \<and> response (post_reconnaissance env_enoent example_body) =
       Some (server_error ''Error executing script: spawn python3 ENOENT'')"
proof -
  have d: "domain example_body = Some ''example.com''" by (simp add: example_body_def)
  have k: "dir_ok env_enoent ''example.com''"
    unfolding env_enoent_def dir_ok_spawn by (rule example_dir_ok)
  have t: "first_process env_enoent example_body ''example.com'' =
       [] @ ErrorEv ''ENOENT'' ''spawn python3 ENOENT'' # [Close (Some (- 2))]"
    by (simp add: first_process_def env_enoent_def)
  have i: "list_all is_data []" by simp
  have s: "spawn env_enoent ''python3'' (run_args env_enoent example_body ''example.com'') =
       [ErrorEv ''ENOENT'' ''spawn python3 ENOENT'', Close (Some (- 2))]"
    "spawn env_enoent ''python'' (run_args env_enoent example_body ''example.com'') =
       [StdoutData ''{}'', Close (Some 0)]"
    by (simp_all add: env_enoent_def)
  show ?thesis
    using fallback_result_discarded[OF example_body_valid d k i t] example_body_valid s
    by simp
qed

text \<open>
  C6, as the code has it. The Report the handler builds itself, the one synthesized when
  the report file gives nothing and the output of the script is not JSON, has both counts
  0, both lists empty and exactly one error string, so \<open>total_subdomains\<close> is the number
  of entries of \<open>subdomains\<close> and \<open>active_subdomains\<close> the number of active entries of
  \<open>active_hosts\<close>. It is the Report of the response in exactly that case. Every other
  Report of a response is the document \<open>JSON.parse\<close> returned for the report file or,
  when the file gives nothing, for the output of the script, passed on as it is: the
  handler does not look at its counts or its lists.
\<close>

theorem synthesized_report_invariant:
  "report_consistent (synthesized_report e d m)
   \<and> field ''total_subdomains'' (synthesized_report e d m) = Some (JNum 0)
   \<and> field ''active_subdomains'' (synthesized_report e d m) = Some (JNum 0)
   \<and> field ''subdomains'' (synthesized_report e d m) = Some (JArr [])
   \<and> field ''active_hosts'' (synthesized_report e d m) = Some (JArr [])
   \<and> field ''errors'' (synthesized_report e d m) =
       Some (JArr [JStr (''Failed to create results file: '' @ m)])
   \<and> (validateDomain b = [] \<and> domain b = Some d \<and> dir_ok e d \<and>
       request_promise e b d = Resolved r \<and> file_report e d = Inl m \<and>
       JSON_parse e (script_output r) = Inl m' \<longrightarrow>
         response (post_reconnaissance e b) = Some (completed e (synthesized_report e d m)))
   \<and> (validateDomain b = [] \<and> domain b = Some d \<and>
       response (post_reconnaissance e b) = Some (completed e x) \<longrightarrow>
         (\<exists>m. x = synthesized_report e d m) \<or> (\<exists>s. JSON_parse e s = Inr x))
   \<and> (validateDomain b = [] \<and> domain b = Some d \<and> dir_ok e d \<and>
       request_promise e b d = Resolved r \<longrightarrow>
         response (post_reconnaissance e b) =
           Some (completed e
             (case file_report e d of
                Inr j \<Rightarrow> j
              | Inl fileError \<Rightarrow>
                  (case JSON_parse e (script_output r) of
                     Inr j \<Rightarrow> j
                   | Inl parseError \<Rightarrow> synthesized_report e d fileError))))"
proof -
  have 1: "report_consistent (synthesized_report e d m)"
    by (simp add: report_consistent_def synthesized_report_def)
  have 2: "field ''total_subdomains'' (synthesized_report e d m) = Some (JNum 0)"
    "field ''active_subdomains'' (synthesized_report e d m) = Some (JNum 0)"
    "field ''subdomains'' (synthesized_report e d m) = Some (JArr [])"
    "field ''active_hosts'' (synthesized_report e d m) = Some (JArr [])"
    "field ''errors'' (synthesized_report e d m) =
       Some (JArr [JStr (''Failed to create results file: '' @ m)])"
    by (simp_all add: synthesized_report_def)
  have 3: "validateDomain b = [] \<and> domain b = Some d \<and> dir_ok e d \<and>
       request_promise e b d = Resolved r \<and> file_report e d = Inl m \<and>
       JSON_parse e (script_output r) = Inl m' \<longrightarrow>
         response (post_reconnaissance e b) = Some (completed e (synthesized_report e d m))"
  proof
    assume h: "validateDomain b = [] \<and> domain b = Some d \<and> dir_ok e d \<and>
       request_promise e b d = Resolved r \<and> file_report e d = Inl m \<and>
       JSON_parse e (script_output r) = Inl m'"
    then have "response (post_reconnaissance e b) =
        Some (completed e (case file_report e d of Inr j \<Rightarrow> j | Inl m \<Rightarrow> from_output e d r m))"
      using post_resolved[of b d e r] by blast
    then show "response (post_reconnaissance e b) = Some (completed e (synthesized_report e d m))"
      using h by (simp add: from_output_def)
  qed
  have 4: "validateDomain b = [] \<and> domain b = Some d \<and>
       response (post_reconnaissance e b) = Some (completed e x) \<longrightarrow>
         (\<exists>m. x = synthesized_report e d m) \<or> (\<exists>s. JSON_parse e s = Inr x)"
    using post_completed[of b d e x] by blast
  have 5: "validateDomain b = [] \<and> domain b = Some d \<and> dir_ok e d \<and>
       request_promise e b d = Resolved r \<longrightarrow>
         response (post_reconnaissance e b) =
           Some (completed e
             (case file_report e d of
                Inr j \<Rightarrow> j
              | Inl fileError \<Rightarrow>
                  (case JSON_parse e (script_output r) of
                     Inr j \<Rightarrow> j
                   | Inl parseError \<Rightarrow> synthesized_report e d fileError)))"
  proof
    assume h: "validateDomain b = [] \<and> domain b = Some d \<and> dir_ok e d \<and>
       request_promise e b d = Resolved r"
    then have "response (post_reconnaissance e b) =
        Some (completed e (case file_report e d of Inr j \<Rightarrow> j | Inl m \<Rightarrow> from_output e d r m))"
      using post_resolved[of b d e r] by blast
    then show "response (post_reconnaissance e b) =
           Some (completed e
             (case file_report e d of
                Inr j \<Rightarrow> j
              | Inl fileError \<Rightarrow>
                  (case JSON_parse e (script_output r) of
                     Inr j \<Rightarrow> j
                   | Inl parseError \<Rightarrow> synthesized_report e d fileError)))"
      by (simp add: from_output_def split: sum.splits)
  qed
  show ?thesis using 1 2 3 4 5 by blast
qed

theorem synthesized_report_invariant_witness:
  "response (post_reconnaissance
        (example_env\<lparr>spawn := (\<lambda>cmd args. [StdoutData ''done'', Close (Some 0)])\<rparr>) example_body) =
       Some (completed (example_env\<lparr>spawn := (\<lambda>cmd args. [StdoutData ''done'', Close (Some 0)])\<rparr>)
         (synthesized_report
            (example_env\<lparr>spawn := (\<lambda>cmd args. [StdoutData ''done'', Close (Some 0)])\<rparr>)
            ''example.com'' ''ENOENT: no such file or directory''))
   \<and> report_consistent (synthesized_report
        (example_env\<lparr>spawn := (\<lambda>cmd args. [StdoutData ''done'', Close (Some 0)])\<rparr>)
        ''example.com'' ''ENOENT: no such file or directory'')"
proof -
  let ?e = "example_env\<lparr>spawn := (\<lambda>cmd args. [StdoutData ''done'', Close (Some 0)])\<rparr>"
  let ?r = "\<lparr>success = True, message = ''Reconnaissance completed successfully'',
             script_output = stdout_of [StdoutData ''done'']\<rparr>"
  have d: "domain example_body = Some ''example.com''" by (simp add: example_body_def)
  have k: "dir_ok ?e ''example.com''" by (simp add: dir_ok_def example_env_def)
  have t: "first_process ?e example_body ''example.com'' =
       [StdoutData ''done''] @ Close (Some 0) # []"
    by (simp add: first_process_def)
  have i: "list_all is_data [StdoutData ''done'']" by (simp add: is_data_def)
  have p: "request_promise ?e example_body ''example.com'' = Resolved ?r"
    using promise_close[OF t i] by simp
  have f: "file_report ?e ''example.com'' = Inl ''ENOENT: no such file or directory''"
    by (simp add: file_report_def example_env_def)
  have j: "JSON_parse ?e (script_output ?r) = Inl ''Unexpected token''"
    by (simp add: example_env_def stdout_of_def)
  show ?thesis
    using synthesized_report_invariant[of ?e "''example.com''"
        "''ENOENT: no such file or directory''" example_body ?r "''Unexpected token''"]
      example_body_valid d k p f j
    by simp
qed

text \<open>
  C6, as the claim states it, fails for a Report that is passed on: with a report file
  that counts three subdomains and lists one, and counts one active host and lists none,
  the request is answered with HTTP 200 and that Report; and when no report file exists
  and the script prints an empty object, the Report of the response is the empty object,
  which has neither counts nor lists.
\<close>

theorem relayed_report_counterexample:
  "response (post_reconnaissance env_stale example_body) = Some (completed env_stale stale_report)
   \<and> status (completed env_stale stale_report) = 200
   \<and> field ''total_subdomains'' stale_report = Some (JNum 3)
   \<and> field ''subdomains'' stale_report = Some (JArr [JStr ''www.example.com''])
   \<and> field ''active_subdomains'' stale_report = Some (JNum 1)
   \<and> field ''active_hosts'' stale_report = Some (JArr [])
   \<and> \<not> report_consistent stale_report
   \<and> response (post_reconnaissance example_env example_body) =
       Some (completed example_env (JObj []))
   \<and> \<not> report_consistent (JObj [])"
proof -
  have d: "domain example_body = Some ''example.com''" by (simp add: example_body_def)
  have k: "dir_ok env_stale ''example.com''" by (simp add: dir_ok_def env_stale_def example_env_def)
  have t: "first_process env_stale example_body ''example.com'' =
       [StdoutData ''{}''] @ Close (Some 0) # []"
    by (simp add: first_process_def env_stale_def example_env_def)
  have t0: "first_process example_env example_body ''example.com'' =
       [StdoutData ''{}''] @ Close (Some 0) # []"
    by (simp add: first_process_def example_env_def)
  have i: "list_all is_data [StdoutData ''{}'']" by (simp add: is_data_def)
  have r: "path_join [dirname env_stale, ''results''] = ''/srv/server/results''"
    using example_root by (simp add: env_stale_def)
  have p: "results_path env_stale ''example.com'' ''json'' =
      ''/srv/server/results/example.com/example.com_reconnaissance_report.json''"
    using r by (simp add: results_path_def results_root_def results_filename_def)
  have f: "files env_stale (results_path env_stale ''example.com'' ''json'') = File stale_text"
    unfolding p by (simp add: env_stale_def)
  have j: "JSON_parse env_stale stale_text = Inr stale_report" by (simp add: env_stale_def)
  have 1: "response (post_reconnaissance env_stale example_body) =
      Some (completed env_stale stale_report)"
    using post_exit_zero[OF example_body_valid d k t i] f j by simp
  have 2: "response (post_reconnaissance example_env example_body) =
       Some (completed example_env (JObj []))"
    using post_exit_zero[OF example_body_valid d example_dir_ok t0 i]
    by (simp add: example_env_def stdout_of_def)
  have 3: "\<not> report_consistent stale_report" "\<not> report_consistent (JObj [])"
    by (simp_all add: report_consistent_def stale_report_def)
  have 4: "status (completed env_stale stale_report) = 200" by (simp add: completed_def)
  show ?thesis using 1 2 3 4 by (simp add: stale_report_def)
qed



text \<open>
  C8. For an accepted request (one that passes the validation), the processes spawned
  are \<open>python3\<close> and, once for each ENOENT error of it, \<open>python\<close>, all with the same
  argument list: the script path, the domain, \<open>--output-dir\<close> with the results directory
  of the domain, \<open>--timeout\<close> with the request's timeout or 300 when it is absent,
  \<open>--workers\<close> with the request's workers or 20 when absent, and then \<open>--verbose\<close>,
  \<open>--json-only\<close> and \<open>--csv-only\<close>, each exactly when the request's flag is truthy.
  The timeout and the workers are passed on as the request has them, whatever JSON value
  passed the validation. Nothing is spawned when the results directory cannot be made.
\<close>

theorem script_arguments:
  "validateDomain b = [] \<Longrightarrow> domain b = Some d \<Longrightarrow>
   filter is_spawn (effects (post_reconnaissance e b)) =
     (if dir_ok e d then
        Spawn ''python3'' (run_args e b d) #
        replicate (length (filter is_enoent (first_process e b d))) (Spawn ''python'' (run_args e b d))
      else [])
   \<and> run_args e b d =
     [JStr (script_path e), JStr d, JStr ''--output-dir'', JStr (results_dir e d),
      JStr ''--timeout'', (case timeout b of None \<Rightarrow> JNum 300 | Some t \<Rightarrow> t),
      JStr ''--workers'', (case workers b of None \<Rightarrow> JNum 20 | Some w \<Rightarrow> w)] @
     (if truthy (verbose b) then [JStr ''--verbose''] else []) @
     (if truthy (jsonOnly b) then [JStr ''--json-only''] else []) @
     (if truthy (csvOnly b) then [JStr ''--csv-only''] else [])
   \<and> results_dir e d = path_join [dirname e, ''results'', d]
   \<and> results_dir e d = path_join [dirname e, ''results''] @ ''/'' @ d"
  using post_spawns[of b d e] run_args_accepted[of b d e]
    post_dir[OF accepted_domain[of b d], of e]
  by (simp add: results_dir_def results_root_def)

theorem script_arguments_witness:
  "validateDomain (example_body\<lparr>timeout := Some (JNum 60), verbose := Some (JBool True)\<rparr>) = []
   \<and> filter is_spawn (effects (post_reconnaissance example_env
        (example_body\<lparr>timeout := Some (JNum 60), verbose := Some (JBool True)\<rparr>))) =
     [Spawn ''python3''
        [JStr ''/srv/scripts/main.py'', JStr ''example.com'',
         JStr ''--output-dir'', JStr ''/srv/server/results/example.com'',
         JStr ''--timeout'', JNum 60, JStr ''--workers'', JNum 20, JStr ''--verbose'']]"
proof -
  let ?b = "example_body\<lparr>timeout := Some (JNum 60), verbose := Some (JBool True)\<rparr>"
  have v: "validateDomain ?b = []"
    using example_domain
    by (simp add: validateDomain_def example_body_def values_of_def isInt_toString integer_in_def)
  have d: "domain ?b = Some ''example.com''" by (simp add: example_body_def)
  have f: "filter is_enoent (first_process example_env ?b ''example.com'') = []"
    by (simp add: first_process_def example_env_def is_enoent_def)
  note th = script_arguments[OF v d, of example_env]
  show ?thesis
    using th[THEN conjunct1] th[THEN conjunct2, THEN conjunct1]
      th[THEN conjunct2, THEN conjunct2, THEN conjunct2]
      v f example_dir_ok example_script_path example_root
    by (simp add: example_body_def)
qed

text \<open>
  C9. The two GET routes reject, with HTTP 400 and before any file-system access, every
  domain parameter that is not made of letters, digits and hyphens apart from a single
  dot followed by letters only; in particular one that contains a slash, two dots in a
  row or a second dot. For a domain they accept, the only path they touch (read, access
  or hand to \<open>res.download\<close>) is \<open>results/{domain}/{file name}\<close> below the server's
  results directory, where the domain and the file name are plain segments (no slash, not
  \<open>.\<close> or \<open>..\<close>): the path lies strictly inside the results directory. Nothing outside
  the results directory has a part in what the two routes do: changing the file system
  at a path that is not below it changes neither the response nor the effects.
\<close>

theorem get_routes_stay_inside_results:
  "(regex_test domain_regex d \<longrightarrow>
      list_all (\<lambda>c. alnum_hyphen c \<or> dot c) d \<and> length (filter dot d) = 1 \<and>
      list_all alpha (tl (dropWhile (\<lambda>c. \<not> dot c) d)) \<and>
      CHR ''/'' \<notin> set d \<and> \<not> sublist ''..'' d)
   \<and> (if regex_test domain_regex d then
         effects (get_results e d fmt) =
           [ReadFileSync (results_root e @ ''/'' @ d @ ''/'' @ results_filename d (query_format fmt))] \<and>
         effects (get_download e d fmt) =
           (if accessible e (results_root e @ ''/'' @ d @ ''/'' @ results_filename d (query_format fmt))
            then [Access (results_root e @ ''/'' @ d @ ''/'' @ results_filename d (query_format fmt)),
                  Download (results_root e @ ''/'' @ d @ ''/'' @ results_filename d (query_format fmt))
                    (results_filename d (query_format fmt))]
            else [Access (results_root e @ ''/'' @ d @ ''/'' @ results_filename d (query_format fmt))]) \<and>
         plain d \<and> plain (results_filename d (query_format fmt))
       else
         get_results e d fmt = \<lparr>response = Some invalid_domain, effects = []\<rparr> \<and>
         get_download e d fmt = \<lparr>response = Some invalid_domain, effects = []\<rparr> \<and>
         status invalid_domain = 400)
   \<and> (\<not> prefix (results_root e @ ''/'') p \<longrightarrow>
        get_results (e\<lparr>files := (files e)(p := s)\<rparr>) d fmt = get_results e d fmt \<and>
        get_download (e\<lparr>files := (files e)(p := s), download := (download e)(p := t)\<rparr>) d fmt =
          get_download e d fmt)"
proof -
  have n: "\<not> prefix (results_root e @ ''/'') p \<longrightarrow>
        get_results (e\<lparr>files := (files e)(p := s)\<rparr>) d fmt = get_results e d fmt \<and>
        get_download (e\<lparr>files := (files e)(p := s), download := (download e)(p := t)\<rparr>) d fmt =
          get_download e d fmt"
  proof
    assume a: "\<not> prefix (results_root e @ ''/'') p"
    have "p \<noteq> results_path e d (query_format fmt)"
      using a results_path_prefix[of e d "query_format fmt"] by blast
    then show "get_results (e\<lparr>files := (files e)(p := s)\<rparr>) d fmt = get_results e d fmt \<and>
        get_download (e\<lparr>files := (files e)(p := s), download := (download e)(p := t)\<rparr>) d fmt =
          get_download e d fmt"
      using get_results_files get_download_files by blast
  qed
  show ?thesis
  proof (cases "regex_test domain_regex d")
    case True
    note c = domain_regex_chars[OF True]
    have "effects (get_results e d fmt) =
        [ReadFileSync (results_root e @ ''/'' @ d @ ''/'' @ results_filename d (query_format fmt))]"
      using get_results_effects[of e d fmt] True by (simp add: results_path_def)
    moreover have "effects (get_download e d fmt) =
           (if accessible e (results_root e @ ''/'' @ d @ ''/'' @ results_filename d (query_format fmt))
            then [Access (results_root e @ ''/'' @ d @ ''/'' @ results_filename d (query_format fmt)),
                  Download (results_root e @ ''/'' @ d @ ''/'' @ results_filename d (query_format fmt))
                    (results_filename d (query_format fmt))]
            else [Access (results_root e @ ''/'' @ d @ ''/'' @ results_filename d (query_format fmt))])"
      using get_download_effects[of e d fmt] True by (simp add: results_path_def)
    ultimately show ?thesis
      using True c(1,2,5) domain_no_slash[OF True] domain_no_dotdot[OF True]
        domain_file_plain[OF True] n by simp
  next
    case False
    then show ?thesis using n by (simp add: get_results_def get_download_def invalid_domain_def)
  qed
qed

theorem get_routes_stay_inside_results_witness:
  "effects (get_results example_env ''example.com'' None) =
     [ReadFileSync ''/srv/server/results/example.com/example.com_reconnaissance_report.json'']
   \<and> effects (get_download env_csv ''example.com'' (Some ''csv'')) =
     [Access ''/srv/server/results/example.com/example.com_subdomains.csv'',
      Download ''/srv/server/results/example.com/example.com_subdomains.csv''
        ''example.com_subdomains.csv'']
   \<and> CHR ''/'' \<notin> set ''example.com''
   \<and> get_results example_env ''../../etc/passwd'' None =
       \<lparr>response = Some invalid_domain, effects = []\<rparr>
   \<and> get_download example_env ''../../etc/passwd'' None =
       \<lparr>response = Some invalid_domain, effects = []\<rparr>
   \<and> get_download (env_csv\<lparr>files := (files env_csv)(''/etc/passwd'' := File ''root''),
                           download := (download env_csv)(''/etc/passwd'' := Sent ''root'')\<rparr>)
        ''example.com'' (Some ''csv'') =
       get_download env_csv ''example.com'' (Some ''csv'')"
proof -
  have r: "results_root env_csv = ''/srv/server/results''"
    using example_root by (simp add: env_csv_def results_root_def)
  have a: "accessible env_csv ''/srv/server/results/example.com/example.com_subdomains.csv''"
    by (simp add: accessible_def env_csv_def)
  have np: "\<not> prefix (results_root env_csv @ ''/'') ''/etc/passwd''"
    unfolding r by simp
  note th1 = get_routes_stay_inside_results[where d = "''example.com''" and e = example_env
      and fmt = None]
  note th2 = get_routes_stay_inside_results[where d = "''example.com''" and e = env_csv
      and fmt = "Some ''csv''" and p = "''/etc/passwd''" and s = "File ''root''"
      and t = "Sent ''root''"]
  note th3 = get_routes_stay_inside_results[where d = "''../../etc/passwd''" and e = example_env
      and fmt = None]
  have 1: "effects (get_results example_env ''example.com'' None) =
     [ReadFileSync ''/srv/server/results/example.com/example.com_reconnaissance_report.json'']
     \<and> CHR ''/'' \<notin> set ''example.com''"
    using th1 example_domain example_root
    by (simp add: query_format_def results_root_def results_filename_def)
  have 2: "effects (get_download env_csv ''example.com'' (Some ''csv'')) =
     [Access ''/srv/server/results/example.com/example.com_subdomains.csv'',
      Download ''/srv/server/results/example.com/example.com_subdomains.csv''
        ''example.com_subdomains.csv'']"
    using th2[THEN conjunct2, THEN conjunct1] example_domain r a
    by (simp add: query_format_def results_filename_def)
  have 3: "get_results example_env ''../../etc/passwd'' None =
       \<lparr>response = Some invalid_domain, effects = []\<rparr>
     \<and> get_download example_env ''../../etc/passwd'' None =
       \<lparr>response = Some invalid_domain, effects = []\<rparr>"
    using th3[THEN conjunct2, THEN conjunct1] traversal_rejected by simp
  have 4: "get_download (env_csv\<lparr>files := (files env_csv)(''/etc/passwd'' := File ''root''),
                           download := (download env_csv)(''/etc/passwd'' := Sent ''root'')\<rparr>)
        ''example.com'' (Some ''csv'') =
       get_download env_csv ''example.com'' (Some ''csv'')"
    using th2[THEN conjunct2, THEN conjunct2] np by blast
  show ?thesis using 1 2 3 4 by blast
qed



end
